theory Spec2Isabelle
  imports Complex_Main "HOL-Library.AList" "HOL-Library.Sublist"
begin

section \<open>The feature processor (\<^verbatim>\<open>src/feature-processor/processor_enhanced.py\<close>)\<close>

text \<open>
  A shallow embedding of the stream processor: the feature registry, the windowed
  counters over the cache with their database fallback, the feature computer, the drift
  detector, and the batch and single-event drivers.

  Conventions of the embedding.
  \<^item> A Python \<^verbatim>\<open>dict\<close> whose iteration order the code relies on is an association list
    with distinct keys, written with \<open>AList.update\<close> (replace in place, else append), which
    is the insertion order of a Python dict.
  \<^item> Every \<^verbatim>\<open>raise\<close> is a value \<open>Inl e\<close>; a function with effects maps a state to a
    result and the state it leaves behind, also when it raises: what was written to the
    cache before the exception stays written.
  \<^item> Python \<^verbatim>\<open>float\<close>s are read as real numbers. The tests on them that the theorems
    below depend on (the sign of a time difference, \<^verbatim>\<open>< 1800\<close>, a ratio against \<open>0\<close> and
    \<open>1\<close>) give the same answer on the correctly rounded double as on the exact quotient,
    for counts and microsecond differences below \<open>2^52\<close>.
  \<^item> Library functions whose full behaviour is outside the repository (the MD5 digest,
    \<^verbatim>\<open>datetime.fromisoformat\<close>, \<^verbatim>\<open>int\<close> on a string, the clock) are fields of an
    environment record; the general theorems hold for every environment. A concrete
    environment, used where a theorem is evaluated at an input, is defined further below.
\<close>

subsection \<open>Python values and exceptions\<close>

datatype pyerr =
  TypeError | ValueError | KeyError | ZeroDivisionError | DataError | ResponseError
  | DatabaseError | KafkaError

text \<open>
  An input event (a JSON object). The keys the processor reads are optional string fields;
  everything else is passed through untouched.
\<close>

record event =
  ev_user_id :: "string option"
  ev_event_type :: "string option"
  ev_ingested_at :: "string option"
  ev_device_type :: "string option"
  ev_passthrough :: "(string \<times> string) list"

datatype pyval =
  PNone | PBool bool | PInt int | PFloat real | PStr string | PEvent event

type_synonym pydict = "(string \<times> pyval) list"

text \<open>\<^verbatim>\<open>d.update(other)\<close>: the items of \<open>other\<close> are stored in their order.\<close>

definition dict_update :: "pydict \<Rightarrow> pydict \<Rightarrow> pydict" where
  "dict_update d other = fold (\<lambda>(k, v). AList.update k v) other d"

definition keys :: "pydict \<Rightarrow> string set" where
  "keys d = fst ` set d"

text \<open>The number a value stands for in a comparison or a division; \<open>None\<close> for a value
  that Python refuses to order against a number (\<^verbatim>\<open>TypeError\<close>).\<close>

fun py_num :: "pyval \<Rightarrow> real option" where
  "py_num (PInt i) = Some (real_of_int i)"
| "py_num (PFloat x) = Some x"
| "py_num (PBool b) = Some (if b then 1 else 0)"
| "py_num PNone = None"
| "py_num (PStr s) = None"
| "py_num (PEvent e) = None"

text \<open>\<^verbatim>\<open>v > c\<close> and \<^verbatim>\<open>v < c\<close> against a number \<open>c\<close>.\<close>

definition py_gt :: "pyval \<Rightarrow> real \<Rightarrow> pyerr + bool" where
  "py_gt v c = (case py_num v of None \<Rightarrow> Inl TypeError | Some x \<Rightarrow> Inr (c < x))"

definition py_lt :: "pyval \<Rightarrow> real \<Rightarrow> pyerr + bool" where
  "py_lt v c = (case py_num v of None \<Rightarrow> Inl TypeError | Some x \<Rightarrow> Inr (x < c))"

text \<open>Truth value of an object in a condition.\<close>

fun truthy :: "pyval \<Rightarrow> bool" where
  "truthy PNone = False"
| "truthy (PBool b) = b"
| "truthy (PInt i) = (i \<noteq> 0)"
| "truthy (PFloat x) = (x \<noteq> 0)"
| "truthy (PStr s) = (s \<noteq> [])"
| "truthy (PEvent e) =
     (ev_user_id e \<noteq> None \<or> ev_event_type e \<noteq> None \<or> ev_ingested_at e \<noteq> None
      \<or> ev_device_type e \<noteq> None \<or> ev_passthrough e \<noteq> [])"

subsection \<open>Dates and times\<close>

text \<open>
  A \<^verbatim>\<open>datetime\<close>: the wall-clock reading in microseconds since 0001-01-01T00:00:00 (a
  Monday, ordinal day 1), and the UTC offset in microseconds of an aware value (\<open>None\<close>:
  naive). \<^verbatim>\<open>a - b\<close> raises \<^verbatim>\<open>TypeError\<close> between a naive and an aware value;
  \<^verbatim>\<open>total_seconds()\<close> divides the microseconds by \<open>10^6\<close>.
\<close>

record datetime =
  dt_micros :: int
  dt_utcoffset :: "int option"

definition dt_hour :: "datetime \<Rightarrow> int" where
  "dt_hour d = (dt_micros d div 3600000000) mod 24"

definition dt_weekday :: "datetime \<Rightarrow> int" where
  "dt_weekday d = (dt_micros d div 86400000000) mod 7"

definition dt_sub :: "datetime \<Rightarrow> datetime \<Rightarrow> pyerr + int" where
  "dt_sub a b =
     (case (dt_utcoffset a, dt_utcoffset b) of
        (None, None) \<Rightarrow> Inr (dt_micros a - dt_micros b)
      | (Some oa, Some ob) \<Rightarrow> Inr ((dt_micros a - oa) - (dt_micros b - ob))
      | (None, Some ob) \<Rightarrow> Inl TypeError
      | (Some oa, None) \<Rightarrow> Inl TypeError)"

definition total_seconds :: "int \<Rightarrow> real" where
  "total_seconds micros = real_of_int micros / 1000000"

text \<open>\<^verbatim>\<open>timestamp.replace('Z', '+00:00')\<close>.\<close>

definition replace_Z :: "string \<Rightarrow> string" where
  "replace_Z s = concat (map (\<lambda>c. if c = CHR ''Z'' then ''+00:00'' else [c]) s)"

subsection \<open>The environment\<close>

text \<open>
  The library functions and the clock. \<open>md5_int u\<close> is
  \<^verbatim>\<open>int(hashlib.md5(u.encode()).hexdigest(), 16)\<close>; \<open>fromisoformat\<close> and \<open>int_of_str\<close>
  return \<open>None\<close> where Python raises \<^verbatim>\<open>ValueError\<close>; \<open>utcnow n\<close> is the \<open>n\<close>-th reading
  of \<^verbatim>\<open>datetime.utcnow()\<close>, as its \<^verbatim>\<open>isoformat()\<close> text and its \<^verbatim>\<open>timestamp()\<close>.
\<close>

record pyenv =
  md5_int :: "string \<Rightarrow> nat"
  fromisoformat :: "string \<Rightarrow> datetime option"
  int_of_str :: "string \<Rightarrow> int option"
  utcnow :: "nat \<Rightarrow> string \<times> real"

subsection \<open>The feature registry\<close>

text \<open>
  The configuration document as \<^verbatim>\<open>FeatureRegistry.__init__\<close> holds it. An optional field
  is a key that the code reads with \<^verbatim>\<open>.get(key, default)\<close>; the default is applied where
  the code applies it. \<open>ab_enabled\<close> and \<open>drift_enabled\<close> are the truth values of the two
  \<^verbatim>\<open>enabled\<close> entries (absent: false).
\<close>

record variant_cfg =
  var_id :: "string option"
  var_traffic_percentage :: "int option"
  var_features_version :: "string option"

record feature_def =
  fd_name :: "string option"
  fd_version :: "string option"

record threshold_cfg =
  th_mean_shift :: "real option"
  th_std_shift :: "real option"

record registry =
  reg_version :: string
  reg_features :: "(string \<times> feature_def list) list"
  reg_default_ttl_seconds :: "int option"
  reg_feature_ttls :: "string \<rightharpoonup> int"
  ab_enabled :: bool
  ab_variants :: "variant_cfg list"
  drift_enabled :: bool
  drift_thresholds :: "string \<rightharpoonup> threshold_cfg"

definition get_feature_ttl :: "registry \<Rightarrow> string \<Rightarrow> int" where
  "get_feature_ttl reg feature_name =
     (case reg_feature_ttls reg feature_name of
        Some t \<Rightarrow> t
      | None \<Rightarrow> (case reg_default_ttl_seconds reg of Some t \<Rightarrow> t | None \<Rightarrow> 300))"

text \<open>The loop of \<^verbatim>\<open>get_user_variant\<close> over the variant list, with the running sum.\<close>

fun variant_walk :: "int \<Rightarrow> int \<Rightarrow> variant_cfg list \<Rightarrow> string" where
  "variant_walk variant_percentage cumulative [] = ''A''"
| "variant_walk variant_percentage cumulative (variant # variants) =
     (let cumulative' = cumulative +
            (case var_traffic_percentage variant of Some p \<Rightarrow> p | None \<Rightarrow> 50)
      in if variant_percentage < cumulative'
         then (case var_id variant of Some i \<Rightarrow> i | None \<Rightarrow> ''A'')
         else variant_walk variant_percentage cumulative' variants)"

definition get_user_variant :: "pyenv \<Rightarrow> registry \<Rightarrow> string \<Rightarrow> string" where
  "get_user_variant env reg user_id =
     (if \<not> ab_enabled reg then ''A''
      else variant_walk (int (md5_int env user_id) mod 100) 0 (ab_variants reg))"

text \<open>The two inner loops of \<^verbatim>\<open>should_compute_feature\<close>: the first feature of that name,
  over the categories in their order.\<close>

fun find_feature :: "string \<Rightarrow> feature_def list \<Rightarrow> feature_def option" where
  "find_feature feature_name [] = None"
| "find_feature feature_name (feature # category) =
     (if fd_name feature = Some feature_name then Some feature
      else find_feature feature_name category)"

fun find_in_categories ::
  "string \<Rightarrow> (string \<times> feature_def list) list \<Rightarrow> feature_def option" where
  "find_in_categories feature_name [] = None"
| "find_in_categories feature_name ((cname, category) # categories) =
     (case find_feature feature_name category of
        Some feature \<Rightarrow> Some feature
      | None \<Rightarrow> find_in_categories feature_name categories)"

fun should_compute_loop ::
  "(string \<times> feature_def list) list \<Rightarrow> string \<Rightarrow> string \<Rightarrow> variant_cfg list \<Rightarrow> bool" where
  "should_compute_loop feats feature_name variant [] = True"
| "should_compute_loop feats feature_name variant (var # vars) =
     (if var_id var = Some variant then
        (let version = (case var_features_version var of Some v \<Rightarrow> v | None \<Rightarrow> ''v1'')
         in case find_in_categories feature_name feats of
              Some feature \<Rightarrow>
                (case fd_version feature of Some v \<Rightarrow> v | None \<Rightarrow> ''v1'') = version
                \<or> version = ''v2''
            | None \<Rightarrow> should_compute_loop feats feature_name variant vars)
      else should_compute_loop feats feature_name variant vars)"

definition should_compute_feature :: "registry \<Rightarrow> string \<Rightarrow> string \<Rightarrow> bool" where
  "should_compute_feature reg feature_name variant =
     should_compute_loop (reg_features reg) feature_name variant (ab_variants reg)"

subsection \<open>Variant assignment as the specification words it\<close>

text \<open>
  The specification's algorithm, over a variant table whose entries all carry an id, a
  traffic percentage and a features version: reduce the digest to \<open>bucket = digest mod 100\<close>,
  walk the list accumulating the percentages, and return the first id whose cumulative
  bound strictly exceeds the bucket; with A/B testing disabled, the first id of the list.
  It has no answer (\<open>None\<close>) where the specification gives none.
\<close>

fun spec_walk :: "int \<Rightarrow> int \<Rightarrow> (string \<times> int \<times> string) list \<Rightarrow> string option" where
  "spec_walk bucket bound [] = None"
| "spec_walk bucket bound ((i, p, fv) # tbl) =
     (if bucket < bound + p then Some i else spec_walk bucket (bound + p) tbl)"

definition spec_variant ::
  "bool \<Rightarrow> nat \<Rightarrow> (string \<times> int \<times> string) list \<Rightarrow> string option" where
  "spec_variant enabled digest tbl =
     (if enabled then spec_walk (int digest mod 100) 0 tbl
      else (case tbl of [] \<Rightarrow> None | (i, p, fv) # rest \<Rightarrow> Some i))"

fun variant_of_row :: "string \<times> int \<times> string \<Rightarrow> variant_cfg" where
  "variant_of_row (i, p, fv) =
     \<lparr>var_id = Some i, var_traffic_percentage = Some p, var_features_version = Some fv\<rparr>"

subsection \<open>Decimal text\<close>

text \<open>\<^verbatim>\<open>str(n)\<close> of an integer (as in an f-string, and as the cache client stores a number),
  and the reading of a plain decimal numeral: an optional sign and digits.\<close>

definition digit_char :: "nat \<Rightarrow> char" where
  "digit_char d = ''0123456789'' ! d"

fun str_nat :: "nat \<Rightarrow> string" where
  "str_nat n = (if n < 10 then [digit_char n] else str_nat (n div 10) @ [digit_char (n mod 10)])"

declare str_nat.simps [simp del]

definition str_int :: "int \<Rightarrow> string" where
  "str_int i = (if i < 0 then CHR ''-'' # str_nat (nat (- i)) else str_nat (nat i))"

definition digit_val :: "char \<Rightarrow> nat option" where
  "digit_val c =
     (let n = (of_char c :: nat) in if 48 \<le> n \<and> n \<le> 57 then Some (n - 48) else None)"

fun digits_acc :: "nat \<Rightarrow> string \<Rightarrow> nat option" where
  "digits_acc a [] = Some a"
| "digits_acc a (c # cs) =
     (case digit_val c of None \<Rightarrow> None | Some d \<Rightarrow> digits_acc (10 * a + d) cs)"

definition digits_val :: "string \<Rightarrow> nat option" where
  "digits_val s = (if s = [] then None else digits_acc 0 s)"

definition dec_int :: "string \<Rightarrow> int option" where
  "dec_int s =
     (case s of
        [] \<Rightarrow> None
      | c # cs \<Rightarrow>
          if c = CHR ''-'' then map_option (\<lambda>n. - int n) (digits_val cs)
          else if c = CHR ''+'' then map_option int (digits_val cs)
          else map_option int (digits_val s))"

subsection \<open>The cache, the feature store and the topics\<close>

record feature_row =
  row_user_id :: pyval
  row_feature_name :: string
  row_feature_value :: pyval
  row_computed_at :: pyval
  row_feature_version :: pyval
  row_ab_variant :: pyval

record dlq_record =
  dlq_original_event :: event
  dlq_error :: pyerr
  dlq_timestamp :: string

text \<open>
  Everything the processor reads and writes.
  \<^item> \<open>redis\<close>: the string keys of the cache, each with the time to live last set for it
    (\<open>None\<close>: no expiry). Expiry itself is an action of the cache, not of this program,
    and is not part of a step of the model.
  \<^item> \<open>redis_hashes\<close>, \<open>redis_hash_ttl\<close>, \<open>redis_zsets\<close>: the drift detector's hashes (a
    missing key reads as the empty hash) and sorted sets (member and score). A hash field
    holds the number that was written: \<open>PInt\<close> for the text of an integer, \<open>PFloat\<close> for
    the text of a float, \<open>PStr\<close> for any other text.
  \<^item> \<open>raw_events\<close>, \<open>db_now\<close>: the rows \<open>(user_id, timestamp)\<close> of the table
    \<^verbatim>\<open>raw_events\<close> and the database's \<^verbatim>\<open>NOW()\<close>, in seconds.
  \<^item> \<open>features_committed\<close>, \<open>features_pending\<close>: the table \<^verbatim>\<open>features\<close>, keyed by its
    unique constraint \<open>(user_id, feature_name)\<close>, as committed and as the open
    transaction of the connection sees it.
  \<^item> \<open>db_faults\<close>, \<open>kafka_faults\<close>: the outcomes of the coming database statements and
    producer sends, supplied by the environment (\<open>True\<close>: the call raises; an exhausted
    list: no further fault).
  \<^item> \<open>feature_events\<close>, \<open>dead_letter_queue\<close>: what was sent to the two topics, in order.
  \<^item> the Prometheus counters, and \<open>tick\<close>, the number of clock readings taken so far.
\<close>

record pstate =
  redis :: "string \<rightharpoonup> string \<times> int option"
  redis_hashes :: "string \<Rightarrow> pydict"
  redis_hash_ttl :: "string \<rightharpoonup> int"
  redis_zsets :: "string \<Rightarrow> ((real \<times> pyval) \<times> real) list"
  raw_events :: "(string \<times> real) list"
  db_now :: real
  features_committed :: "pyval \<times> string \<rightharpoonup> feature_row"
  features_pending :: "pyval \<times> string \<rightharpoonup> feature_row"
  db_faults :: "bool list"
  kafka_faults :: "bool list"
  feature_events :: "pydict list"
  dead_letter_queue :: "dlq_record list"
  events_processed :: nat
  events_failed :: nat
  cache_hits :: nat
  cache_misses :: nat
  ab_variant_counter :: "string list"
  drift_alerts :: "string list"
  tick :: nat

type_synonym 'a action = "pstate \<Rightarrow> (pyerr + 'a) \<times> pstate"

text \<open>Sequencing: an exception ends the sequence and keeps the state reached.\<close>

definition pbind :: "'a action \<Rightarrow> ('a \<Rightarrow> 'b action) \<Rightarrow> 'b action" where
  "pbind m f s = (case m s of (Inl e, s') \<Rightarrow> (Inl e, s') | (Inr x, s') \<Rightarrow> f x s')"

definition ret :: "'a \<Rightarrow> 'a action" where
  "ret x s = (Inr x, s)"

definition raise :: "pyerr \<Rightarrow> 'a action" where
  "raise e s = (Inl e, s)"

definition ebind :: "pyerr + 'a \<Rightarrow> ('a \<Rightarrow> pyerr + 'b) \<Rightarrow> pyerr + 'b" where
  "ebind r f = (case r of Inl e \<Rightarrow> Inl e | Inr x \<Rightarrow> f x)"

definition read_clock :: "pyenv \<Rightarrow> pstate \<Rightarrow> (string \<times> real) \<times> pstate" where
  "read_clock env s = (utcnow env (tick s), s\<lparr>tick := tick s + 1\<rparr>)"

text \<open>The value of \<^verbatim>\<open>redis_client.get(key)\<close> when it is truthy (present and not empty).\<close>

definition redis_get :: "pstate \<Rightarrow> string \<Rightarrow> string option" where
  "redis_get s key =
     (case redis s key of None \<Rightarrow> None | Some (v, t) \<Rightarrow> if v = [] then None else Some v)"

text \<open>\<^verbatim>\<open>SETEX\<close> refuses a time to live that is not positive.\<close>

definition redis_setex :: "string \<Rightarrow> int \<Rightarrow> string \<Rightarrow> unit action" where
  "redis_setex key ttl v s =
     (if ttl \<le> 0 then (Inl ResponseError, s)
      else (Inr (), s\<lparr>redis := (redis s)(key \<mapsto> (v, Some ttl))\<rparr>))"

text \<open>\<^verbatim>\<open>INCR\<close>: the key must hold the canonical text of a signed 64-bit integer whose
  successor is one too; a missing key counts as \<open>0\<close>. The time to live is kept.\<close>

definition redis_incr :: "string \<Rightarrow> int action" where
  "redis_incr key s =
     (case redis s key of
        None \<Rightarrow> (Inr 1, s\<lparr>redis := (redis s)(key \<mapsto> (str_int 1, None))\<rparr>)
      | Some (v, t) \<Rightarrow>
          (case dec_int v of
             None \<Rightarrow> (Inl ResponseError, s)
           | Some n \<Rightarrow>
               if str_int n = v \<and> - (2 ^ 63) \<le> n \<and> n + 1 < 2 ^ 63
               then (Inr (n + 1), s\<lparr>redis := (redis s)(key \<mapsto> (str_int (n + 1), t))\<rparr>)
               else (Inl ResponseError, s)))"

definition redis_expire :: "string \<Rightarrow> int \<Rightarrow> pstate \<Rightarrow> pstate" where
  "redis_expire key ttl s =
     (case redis s key of
        None \<Rightarrow> s
      | Some (v, t) \<Rightarrow> s\<lparr>redis := (redis s)(key \<mapsto> (v, Some ttl))\<rparr>)"

text \<open>The outcome of the next database statement.\<close>

definition db_call_fails :: "pstate \<Rightarrow> bool \<times> pstate" where
  "db_call_fails s =
     (case db_faults s of [] \<Rightarrow> (False, s) | f # fs \<Rightarrow> (f, s\<lparr>db_faults := fs\<rparr>))"

definition kafka_send_fails :: "pstate \<Rightarrow> bool \<times> pstate" where
  "kafka_send_fails s =
     (case kafka_faults s of [] \<Rightarrow> (False, s) | f # fs \<Rightarrow> (f, s\<lparr>kafka_faults := fs\<rparr>))"

subsection \<open>The feature computer\<close>

text \<open>\<^verbatim>\<open>d.get(key, default)\<close>, and a guarded assignment \<^verbatim>\<open>if b: d[key] = v\<close>.\<close>

definition dget :: "pydict \<Rightarrow> string \<Rightarrow> pyval \<Rightarrow> pyval" where
  "dget d key dflt = (case map_of d key of Some v \<Rightarrow> v | None \<Rightarrow> dflt)"

definition set_if :: "bool \<Rightarrow> string \<Rightarrow> pyval \<Rightarrow> pydict \<Rightarrow> pydict" where
  "set_if b key v d = (if b then AList.update key v d else d)"

text \<open>\<^verbatim>\<open>compute_temporal_features\<close>: a timestamp that does not parse is logged and leaves
  the three features out. The default of \<^verbatim>\<open>event.get\<close> reads the clock in any case.\<close>

definition compute_temporal_features ::
  "pyenv \<Rightarrow> registry \<Rightarrow> event \<Rightarrow> string \<Rightarrow> pstate \<Rightarrow> pydict \<times> pstate" where
  "compute_temporal_features env reg event variant s =
     (case read_clock env s of
        ((now_iso, now_ts), s1) \<Rightarrow>
          (let timestamp = (case ev_ingested_at event of Some t \<Rightarrow> t | None \<Rightarrow> now_iso)
           in case fromisoformat env (replace_Z timestamp) of
                None \<Rightarrow> ([], s1)
              | Some dt \<Rightarrow>
                  (set_if (should_compute_feature reg ''is_weekend'' variant)
                      ''is_weekend'' (PBool (5 \<le> dt_weekday dt))
                     (set_if (should_compute_feature reg ''day_of_week'' variant)
                        ''day_of_week'' (PInt (dt_weekday dt))
                        (set_if (should_compute_feature reg ''hour_of_day'' variant)
                           ''hour_of_day'' (PInt (dt_hour dt)) [])),
                   s1)))"

definition event_types :: "string list" where
  "event_types = [''login'', ''logout'', ''purchase'', ''view'', ''click'', ''search'']"

definition device_types :: "string list" where
  "device_types = [''mobile'', ''desktop'', ''tablet'']"

definition one_hot :: "string \<Rightarrow> string list \<Rightarrow> string \<Rightarrow> pydict \<Rightarrow> pydict" where
  "one_hot pre names actual d =
     fold (\<lambda>n. AList.update (pre @ n) (PInt (if actual = n then 1 else 0))) names d"

definition compute_categorical_features :: "registry \<Rightarrow> event \<Rightarrow> string \<Rightarrow> pydict" where
  "compute_categorical_features reg event variant =
     (let event_type = (case ev_event_type event of Some t \<Rightarrow> t | None \<Rightarrow> ''unknown'');
          features =
            (if should_compute_feature reg ''event_type_encoded'' variant
             then one_hot ''event_type_'' event_types event_type [] else []);
          device = (case ev_device_type event of Some t \<Rightarrow> t | None \<Rightarrow> ''unknown'')
      in if should_compute_feature reg ''device_type_encoded'' variant
         then one_hot ''device_type_'' device_types device features else features)"

text \<open>\<^verbatim>\<open>_get_activity_count_from_db\<close>: the count of the user's rows of \<^verbatim>\<open>raw_events\<close> with
  \<^verbatim>\<open>timestamp > NOW() - INTERVAL 'hours hours'\<close>; \<open>0\<close> when the query raises.\<close>

definition get_activity_count_from_db :: "string \<Rightarrow> int \<Rightarrow> pstate \<Rightarrow> int \<times> pstate" where
  "get_activity_count_from_db user_id hours s =
     (case db_call_fails s of
        (True, s') \<Rightarrow> (0, s')
      | (False, s') \<Rightarrow>
          (int (length (filter (\<lambda>r. fst r = user_id \<and> db_now s - real_of_int hours * 3600 < snd r)
                         (raw_events s))),
           s'))"

definition windows :: "(string \<times> int) list" where
  "windows =
     [(''activity_count_1h'', 3600), (''activity_count_6h'', 21600),
      (''activity_count_24h'', 86400), (''activity_count_7d'', 604800)]"

text \<open>The body of the loop over the windows, for a feature that is active: the new count,
  written back to the cache under the feature's time to live.\<close>

definition activity_window :: "pyenv \<Rightarrow> registry \<Rightarrow> string \<Rightarrow> string \<Rightarrow> int \<Rightarrow> int action" where
  "activity_window env reg user_id feature_name window_seconds =
     (let cache_key = ''activity:'' @ user_id @ '':'' @ str_int window_seconds
      in pbind
           (\<lambda>s. case redis_get s cache_key of
                   Some cached_count \<Rightarrow>
                     (case int_of_str env cached_count of
                        None \<Rightarrow> (Inl ValueError, s\<lparr>cache_hits := cache_hits s + 1\<rparr>)
                      | Some n \<Rightarrow> (Inr (n + 1), s\<lparr>cache_hits := cache_hits s + 1\<rparr>))
                 | None \<Rightarrow>
                     (case get_activity_count_from_db user_id (window_seconds div 3600)
                             (s\<lparr>cache_misses := cache_misses s + 1\<rparr>) of
                        (c, s') \<Rightarrow> (Inr (c + 1), s')))
           (\<lambda>count. pbind
              (redis_setex cache_key (get_feature_ttl reg feature_name) (str_int count))
              (\<lambda>u. ret count)))"

fun windows_loop ::
  "pyenv \<Rightarrow> registry \<Rightarrow> string \<Rightarrow> string \<Rightarrow> (string \<times> int) list \<Rightarrow> pydict \<Rightarrow> pydict action" where
  "windows_loop env reg user_id variant [] features s = (Inr features, s)"
| "windows_loop env reg user_id variant ((feature_name, window_seconds) # rest) features s =
     (if \<not> should_compute_feature reg feature_name variant
      then windows_loop env reg user_id variant rest features s
      else (case activity_window env reg user_id feature_name window_seconds s of
              (Inl e, s') \<Rightarrow> (Inl e, s')
            | (Inr count, s') \<Rightarrow>
                windows_loop env reg user_id variant rest
                  (AList.update feature_name (PInt count) features) s'))"

text \<open>The event-type frequency: \<^verbatim>\<open>incr\<close>, \<^verbatim>\<open>expire\<close>, then \<^verbatim>\<open>int(get(key) or 0)\<close>.\<close>

definition event_type_frequency :: "pyenv \<Rightarrow> string \<Rightarrow> string \<Rightarrow> int action" where
  "event_type_frequency env user_id event_type =
     (let event_freq_key = ''event_freq:'' @ user_id @ '':'' @ event_type @ '':24h''
      in pbind (redis_incr event_freq_key)
           (\<lambda>n s. let s1 = redis_expire event_freq_key 86400 s
                  in case redis_get s1 event_freq_key of
                       None \<Rightarrow> (Inr 0, s1)
                     | Some c \<Rightarrow>
                         (case int_of_str env c of
                            None \<Rightarrow> (Inl ValueError, s1)
                          | Some v \<Rightarrow> (Inr v, s1))))"

definition compute_windowed_aggregations ::
  "pyenv \<Rightarrow> registry \<Rightarrow> string \<Rightarrow> string \<Rightarrow> string \<Rightarrow> pydict action" where
  "compute_windowed_aggregations env reg user_id event_type variant =
     pbind (windows_loop env reg user_id variant windows [])
       (\<lambda>features.
          if should_compute_feature reg ''event_type_frequency_24h'' variant
          then pbind (event_type_frequency env user_id event_type)
                 (\<lambda>n. ret (AList.update ''event_type_frequency_24h'' (PInt n) features))
          else ret features)"

text \<open>\<^verbatim>\<open>max(v, 1)\<close> and \<^verbatim>\<open>a / b\<close> on numbers.\<close>

definition py_max1 :: "pyval \<Rightarrow> pyerr + real" where
  "py_max1 v = (case py_num v of None \<Rightarrow> Inl TypeError | Some x \<Rightarrow> Inr (max x 1))"

definition py_truediv :: "pyval \<Rightarrow> real \<Rightarrow> pyerr + real" where
  "py_truediv v d =
     (case py_num v of
        None \<Rightarrow> Inl TypeError
      | Some x \<Rightarrow> if d = 0 then Inl ZeroDivisionError else Inr (x / d))"

text \<open>\<^verbatim>\<open>int(redis_client.get(key) or 0)\<close>.\<close>

definition cached_int :: "pyenv \<Rightarrow> pstate \<Rightarrow> string \<Rightarrow> pyerr + int" where
  "cached_int env s key =
     (case redis_get s key of
        None \<Rightarrow> Inr 0
      | Some c \<Rightarrow> (case int_of_str env c of None \<Rightarrow> Inl ValueError | Some n \<Rightarrow> Inr n))"

definition activity_trend :: "pydict \<Rightarrow> pyerr + real" where
  "activity_trend features =
     (let count_1h = dget features ''activity_count_1h'' (PInt 0);
          count_24h = dget features ''activity_count_24h'' (PInt 1)
      in ebind (py_max1 count_24h) (\<lambda>m. py_truediv count_1h m))"

definition purchase_rate_24h :: "pyenv \<Rightarrow> pstate \<Rightarrow> string \<Rightarrow> pyerr + real" where
  "purchase_rate_24h env s user_id =
     (let purchase_key = ''event_freq:'' @ user_id @ '':purchase:24h'';
          view_key = ''event_freq:'' @ user_id @ '':view:24h''
      in ebind (cached_int env s purchase_key) (\<lambda>purchases.
         ebind (cached_int env s view_key) (\<lambda>views.
           Inr (real_of_int purchases / real_of_int (max views 1)))))"

definition compute_ratio_features ::
  "pyenv \<Rightarrow> registry \<Rightarrow> string \<Rightarrow> pydict \<Rightarrow> string \<Rightarrow> pstate \<Rightarrow> pyerr + pydict" where
  "compute_ratio_features env reg user_id features variant s =
     ebind (if should_compute_feature reg ''activity_trend'' variant
            then ebind (activity_trend features)
                   (\<lambda>t. Inr (AList.update ''activity_trend'' (PFloat t) []))
            else Inr [])
       (\<lambda>ratio_features.
          if should_compute_feature reg ''purchase_rate_24h'' variant
          then ebind (purchase_rate_24h env s user_id)
                 (\<lambda>r. Inr (AList.update ''purchase_rate_24h'' (PFloat r) ratio_features))
          else Inr ratio_features)"

text \<open>An \<^verbatim>\<open>if v > c1: p1 elif v > c2: p2 ...\<close> chain on one value, ending in \<open>other\<close>.\<close>

fun tier :: "pyval \<Rightarrow> (real \<times> int) list \<Rightarrow> pyerr + int \<Rightarrow> pyerr + int" where
  "tier v [] other = other"
| "tier v ((c, p) # rest) other =
     (case py_gt v c of
        Inl e \<Rightarrow> Inl e
      | Inr b \<Rightarrow> if b then Inr p else tier v rest other)"

definition session_points :: "pydict \<Rightarrow> int" where
  "session_points features =
     (if truthy (dget features ''is_active_session'' (PBool False)) then 20 else 0)"

definition engagement_v2 :: "pydict \<Rightarrow> pyerr + int" where
  "engagement_v2 features =
     (let count_1h = dget features ''activity_count_1h'' (PInt 0);
          count_24h = dget features ''activity_count_24h'' (PInt 0)
      in ebind (tier count_24h [(20, 40), (10, 30), (5, 20)] (tier count_1h [(0, 10)] (Inr 0)))
           (\<lambda>activity.
         ebind (tier (dget features ''activity_trend'' (PInt 0)) [(0.5, 20), (0.2, 10)] (Inr 0))
           (\<lambda>trend.
         ebind (tier (dget features ''purchase_rate_24h'' (PInt 0)) [(0.1, 20), (0.05, 10)]
                  (Inr 0))
           (\<lambda>purchase.
              Inr (min (activity + session_points features + trend + purchase) 100)))))"

definition engagement_v1 :: "pydict \<Rightarrow> pyerr + int" where
  "engagement_v1 features =
     ebind (tier (dget features ''activity_count_1h'' (PInt 0)) [(5, 30), (2, 15)] (Inr 0))
       (\<lambda>activity.
     ebind (tier (dget features ''event_type_frequency_24h'' (PInt 0)) [(10, 50)] (Inr 0))
       (\<lambda>freq. Inr (min (activity + session_points features + freq) 100)))"

definition compute_engagement_score :: "registry \<Rightarrow> pydict \<Rightarrow> string \<Rightarrow> pyerr + int" where
  "compute_engagement_score reg features variant =
     (if variant = ''B'' \<and> should_compute_feature reg ''engagement_score_v2'' variant
      then engagement_v2 features
      else engagement_v1 features)"

subsection \<open>The drift detector\<close>

text \<open>\<^verbatim>\<open>int(x)\<close> and \<^verbatim>\<open>float(x)\<close> on a hash field or on the default of \<^verbatim>\<open>.get\<close>: the text
  of a float is no integer literal, and text that is no number is neither.\<close>

fun field_int :: "pyval \<Rightarrow> pyerr + int" where
  "field_int (PInt i) = Inr i"
| "field_int (PBool b) = Inr (if b then 1 else 0)"
| "field_int (PFloat x) = Inl ValueError"
| "field_int (PStr s) = Inl ValueError"
| "field_int PNone = Inl TypeError"
| "field_int (PEvent e) = Inl TypeError"

fun field_float :: "pyval \<Rightarrow> pyerr + real" where
  "field_float (PInt i) = Inr (real_of_int i)"
| "field_float (PFloat x) = Inr x"
| "field_float (PBool b) = Inr (if b then 1 else 0)"
| "field_float (PStr s) = Inl ValueError"
| "field_float PNone = Inl TypeError"
| "field_float (PEvent e) = Inl TypeError"

text \<open>\<^verbatim>\<open>hset(key, mapping=m)\<close> and \<^verbatim>\<open>expire(key, ttl)\<close> on a hash.\<close>

definition redis_hset :: "string \<Rightarrow> pydict \<Rightarrow> pstate \<Rightarrow> pstate" where
  "redis_hset key m s =
     s\<lparr>redis_hashes := (redis_hashes s)(key := dict_update (redis_hashes s key) m)\<rparr>"

definition redis_hexpire :: "string \<Rightarrow> int \<Rightarrow> pstate \<Rightarrow> pstate" where
  "redis_hexpire key ttl s =
     (if redis_hashes s key = [] then s
      else s\<lparr>redis_hash_ttl := (redis_hash_ttl s)(key \<mapsto> ttl)\<rparr>)"

text \<open>\<^verbatim>\<open>_update_statistics\<close>: Welford's update of \<open>count\<close>, \<open>mean\<close> and \<open>m2\<close>.
  \<^verbatim>\<open>(m2 / count) ** 0.5\<close> of a negative quotient is a complex number, which the cache
  client refuses to store.\<close>

definition update_statistics :: "string \<Rightarrow> pyval \<Rightarrow> unit action" where
  "update_statistics feature_name val s =
     (let stats_key = ''drift:stats:'' @ feature_name;
          stats = redis_hashes s stats_key
      in case
           ebind (field_int (dget stats ''count'' (PInt 0))) (\<lambda>count0.
           ebind (field_float (dget stats ''mean'' (PInt 0))) (\<lambda>mean0.
           ebind (field_float (dget stats ''m2'' (PInt 0))) (\<lambda>m20.
             let count = count0 + 1
             in case py_num val of
                  None \<Rightarrow> Inl TypeError
                | Some x \<Rightarrow>
                    if count = 0 then Inl ZeroDivisionError
                    else
                      (let delta = x - mean0;
                           mean = mean0 + delta / real_of_int count;
                           delta2 = x - mean;
                           m2 = m20 + delta * delta2
                       in if 1 < count \<and> m2 / real_of_int count < 0 then Inl DataError
                          else Inr [(''count'', PInt count), (''mean'', PFloat mean),
                                    (''m2'', PFloat m2),
                                    (''std'', if 1 < count
                                              then PFloat (sqrt (m2 / real_of_int count))
                                              else PInt 0)]))))
         of Inl e \<Rightarrow> (Inl e, s)
          | Inr m \<Rightarrow> (Inr (), redis_hexpire stats_key 3600 (redis_hset stats_key m s)))"

text \<open>\<^verbatim>\<open>_check_drift\<close>. The alert is the increment of the counter
  \<^verbatim>\<open>feature_drift_alerts{feature_name}\<close> (with its warning in the log).\<close>

definition check_drift :: "registry \<Rightarrow> string \<Rightarrow> unit action" where
  "check_drift reg feature_name s =
     (case drift_thresholds reg feature_name of
        None \<Rightarrow> (Inr (), s)
      | Some thresholds \<Rightarrow>
          (let baseline_key = ''drift:baseline:'' @ feature_name;
               baseline = redis_hashes s baseline_key;
               stats_key = ''drift:stats:'' @ feature_name;
               current = redis_hashes s stats_key
           in if baseline = [] then
                (if current \<noteq> []
                 then (Inr (), redis_hexpire baseline_key 3600 (redis_hset baseline_key current s))
                 else (Inr (), s))
              else if current = [] then (Inr (), s)
              else
                (case
                   ebind (field_float (dget baseline ''mean'' (PInt 0))) (\<lambda>baseline_mean.
                   ebind (field_float (dget current ''mean'' (PInt 0))) (\<lambda>current_mean.
                   ebind (field_float (dget baseline ''std'' (PInt 1))) (\<lambda>baseline_std.
                   ebind (field_float (dget current ''std'' (PInt 1))) (\<lambda>current_std.
                     let mean_shift_threshold =
                           (case th_mean_shift thresholds of Some t \<Rightarrow> t | None \<Rightarrow> 10);
                         std_shift_threshold =
                           (case th_std_shift thresholds of Some t \<Rightarrow> t | None \<Rightarrow> 5);
                         mean_shift = \<bar>current_mean - baseline_mean\<bar>;
                         std_shift = \<bar>current_std - baseline_std\<bar>
                     in Inr (mean_shift_threshold < mean_shift
                             \<or> std_shift_threshold < std_shift)))))
                 of Inl e \<Rightarrow> (Inl e, s)
                  | Inr alert \<Rightarrow>
                      if alert then (Inr (), s\<lparr>drift_alerts := drift_alerts s @ [feature_name]\<rparr>)
                      else (Inr (), s))))"

text \<open>\<^verbatim>\<open>zadd\<close> of one member with its score, and \<^verbatim>\<open>zremrangebyscore(key, '-inf', cutoff)\<close>.\<close>

definition redis_zadd :: "string \<Rightarrow> real \<times> pyval \<Rightarrow> real \<Rightarrow> pstate \<Rightarrow> pstate" where
  "redis_zadd key member score s =
     s\<lparr>redis_zsets := (redis_zsets s)
          (key := filter (\<lambda>e. fst e \<noteq> member) (redis_zsets s key) @ [(member, score)])\<rparr>"

definition redis_zremrangebyscore :: "string \<Rightarrow> real \<Rightarrow> pstate \<Rightarrow> pstate" where
  "redis_zremrangebyscore key cutoff s =
     s\<lparr>redis_zsets := (redis_zsets s)(key := filter (\<lambda>e. cutoff < snd e) (redis_zsets s key))\<rparr>"

definition record_feature_value :: "pyenv \<Rightarrow> registry \<Rightarrow> string \<Rightarrow> pyval \<Rightarrow> unit action" where
  "record_feature_value env reg feature_name val s =
     (if \<not> drift_enabled reg \<or> val = PNone then (Inr (), s)
      else
        (case read_clock env s of
           ((now_iso, timestamp), s1) \<Rightarrow>
             (let key = ''drift:values:'' @ feature_name;
                  s2 = redis_zadd key (timestamp, val) timestamp s1;
                  s3 = redis_zremrangebyscore key (timestamp - 3600) s2
              in pbind (update_statistics feature_name val)
                   (\<lambda>u. check_drift reg feature_name) s3)))"

subsection \<open>\<^verbatim>\<open>compute_features\<close>\<close>

text \<open>The block \<^verbatim>\<open># Time since last event\<close>, with the write of the new last-event time.
  Any exception of the parsing or the subtraction gives \<^verbatim>\<open>None\<close>.\<close>

definition time_since_last_event :: "pyenv \<Rightarrow> string \<Rightarrow> string \<Rightarrow> pyval action" where
  "time_since_last_event env user_id timestamp s =
     (let last_event_key = ''last_event:'' @ user_id;
          seconds =
            (case redis_get s last_event_key of
               None \<Rightarrow> PNone
             | Some last_event_time \<Rightarrow>
                 (case fromisoformat env last_event_time of
                    None \<Rightarrow> PNone
                  | Some last_time \<Rightarrow>
                      (case fromisoformat env (replace_Z timestamp) of
                         None \<Rightarrow> PNone
                       | Some current_time \<Rightarrow>
                           (case dt_sub current_time last_time of
                              Inl e \<Rightarrow> PNone
                            | Inr d \<Rightarrow> PFloat (total_seconds d)))))
      in pbind (redis_setex last_event_key 86400 timestamp) (\<lambda>u. ret seconds) s)"

text \<open>The block \<^verbatim>\<open># Session indicator\<close>:
  \<^verbatim>\<open>features.get('seconds_since_last_event', 1800) < 1800\<close>.\<close>

definition session_indicator :: "registry \<Rightarrow> string \<Rightarrow> pydict \<Rightarrow> pyerr + pydict" where
  "session_indicator reg variant features =
     (if should_compute_feature reg ''is_active_session'' variant
      then ebind (py_lt (dget features ''seconds_since_last_event'' (PInt 1800)) 1800)
             (\<lambda>b. Inr (AList.update ''is_active_session'' (PBool b) features))
      else Inr features)"

text \<open>The block \<^verbatim>\<open># New user indicator\<close>.\<close>

definition new_user_indicator ::
  "pyenv \<Rightarrow> registry \<Rightarrow> string \<Rightarrow> string \<Rightarrow> string \<Rightarrow> pydict \<Rightarrow> pydict action" where
  "new_user_indicator env reg user_id timestamp variant features s =
     (if should_compute_feature reg ''is_new_user'' variant then
        (let first_event_key = ''first_event:'' @ user_id
         in case redis_get s first_event_key of
              None \<Rightarrow>
                pbind (redis_setex first_event_key (86400 * 7) timestamp)
                  (\<lambda>u. ret (AList.update ''is_new_user'' (PBool True) features)) s
            | Some first_event \<Rightarrow>
                (Inr (AList.update ''is_new_user''
                   (PBool
                     (case fromisoformat env first_event of
                        None \<Rightarrow> False
                      | Some first_time \<Rightarrow>
                          (case fromisoformat env (replace_Z timestamp) of
                             None \<Rightarrow> False
                           | Some current_time \<Rightarrow>
                               (case dt_sub current_time first_time of
                                  Inl e \<Rightarrow> False
                                | Inr d \<Rightarrow> total_seconds d / 3600 < 24))))
                   features), s))
      else (Inr features, s))"

text \<open>The lift of a computation that only reads the state.\<close>

definition lift :: "(pstate \<Rightarrow> pyerr + 'a) \<Rightarrow> 'a action" where
  "lift f s = (f s, s)"

text \<open>\<^verbatim>\<open>event.get('user_id', 'unknown')\<close> and \<^verbatim>\<open>event.get('event_type', 'unknown')\<close>.\<close>

definition get_user_id :: "event \<Rightarrow> string" where
  "get_user_id event = (case ev_user_id event of Some u \<Rightarrow> u | None \<Rightarrow> ''unknown'')"

definition get_event_type :: "event \<Rightarrow> string" where
  "get_event_type event = (case ev_event_type event of Some t \<Rightarrow> t | None \<Rightarrow> ''unknown'')"

definition compute_features :: "pyenv \<Rightarrow> registry \<Rightarrow> event \<Rightarrow> pydict action" where
  "compute_features env reg event s0 =
     (let user_id = get_user_id event;
          event_type = get_event_type event
      in case read_clock env s0 of ((now_iso, now_ts), s1) \<Rightarrow>
        (let timestamp = (case ev_ingested_at event of Some t \<Rightarrow> t | None \<Rightarrow> now_iso);
             variant = get_user_variant env reg user_id;
             s2 = s1\<lparr>ab_variant_counter := ab_variant_counter s1 @ [variant]\<rparr>
         in case read_clock env s2 of ((computed_at, computed_ts), s3) \<Rightarrow>
           (let features0 =
                  [(''user_id'', PStr user_id), (''event_type'', PStr event_type),
                   (''timestamp'', PStr timestamp), (''computed_at'', PStr computed_at),
                   (''feature_version'', PStr (reg_version reg)), (''ab_variant'', PStr variant)]
            in case compute_temporal_features env reg event variant s3 of
                 (temporal_features, s4) \<Rightarrow>
              (let features1 = dict_update features0 temporal_features;
                   features2 =
                     dict_update features1 (compute_categorical_features reg event variant)
               in pbind (compute_windowed_aggregations env reg user_id event_type variant)
                    (\<lambda>window_features.
                  pbind (time_since_last_event env user_id timestamp)
                    (\<lambda>seconds.
                  pbind (lift (\<lambda>s. session_indicator reg variant
                           (AList.update ''seconds_since_last_event'' seconds
                              (dict_update features2 window_features))))
                    (\<lambda>features3.
                  pbind (new_user_indicator env reg user_id timestamp variant features3)
                    (\<lambda>features4.
                  pbind (lift (\<lambda>s. compute_ratio_features env reg user_id features4 variant s))
                    (\<lambda>ratio_features.
                  pbind (lift (\<lambda>s. compute_engagement_score reg
                           (dict_update features4 ratio_features) variant))
                    (\<lambda>engagement_score.
                  (let features5 =
                         AList.update
                           (if variant = ''B'' then ''engagement_score_v2''
                            else ''engagement_score'')
                           (PInt engagement_score) (dict_update features4 ratio_features)
                   in pbind (record_feature_value env reg ''engagement_score''
                               (PInt engagement_score))
                        (\<lambda>u.
                      pbind (case map_of features5 ''activity_count_1h'' of
                               Some c \<Rightarrow> record_feature_value env reg ''activity_count_1h'' c
                             | None \<Rightarrow> ret ())
                        (\<lambda>u. ret (AList.update ''raw_event'' (PEvent event) features5))))))))))
                  s4))))"

subsection \<open>The feature store and the drivers\<close>

definition identity_keys :: "string list" where
  "identity_keys =
     [''user_id'', ''event_type'', ''timestamp'', ''computed_at'', ''feature_version'',
      ''ab_variant'', ''raw_event'']"

text \<open>The rows \<^verbatim>\<open>store_features\<close> builds, over the items of the record in their order.
  \<^verbatim>\<open>features['user_id']\<close> and \<^verbatim>\<open>features['computed_at']\<close> raise \<^verbatim>\<open>KeyError\<close> when
  missing; the version and the variant have defaults.\<close>

fun feature_inserts_loop :: "pydict \<Rightarrow> pydict \<Rightarrow> pyerr + feature_row list" where
  "feature_inserts_loop features [] = Inr []"
| "feature_inserts_loop features ((key, v) # items) =
     (if key \<in> set identity_keys then feature_inserts_loop features items
      else if v = PNone then feature_inserts_loop features items
      else
        (case map_of features ''user_id'' of
           None \<Rightarrow> Inl KeyError
         | Some uid \<Rightarrow>
             (case map_of features ''computed_at'' of
                None \<Rightarrow> Inl KeyError
              | Some computed_at \<Rightarrow>
                  ebind (feature_inserts_loop features items)
                    (\<lambda>rows. Inr (\<lparr>row_user_id = uid, row_feature_name = key,
                                   row_feature_value = v, row_computed_at = computed_at,
                                   row_feature_version =
                                     dget features ''feature_version'' (PStr ''v1''),
                                   row_ab_variant = dget features ''ab_variant'' (PStr ''A'')\<rparr>
                                  # rows)))))"

definition feature_inserts :: "pydict \<Rightarrow> pyerr + feature_row list" where
  "feature_inserts features = feature_inserts_loop features features"

text \<open>The bulk \<^verbatim>\<open>INSERT ... ON CONFLICT (user_id, feature_name) DO UPDATE\<close>.\<close>

definition upsert :: "feature_row list \<Rightarrow> (pyval \<times> string \<rightharpoonup> feature_row) \<Rightarrow>
    (pyval \<times> string \<rightharpoonup> feature_row)" where
  "upsert rows tbl = fold (\<lambda>r t. t((row_user_id r, row_feature_name r) \<mapsto> r)) rows tbl"

definition db_rollback :: "pstate \<Rightarrow> pstate" where
  "db_rollback s = s\<lparr>features_pending := features_committed s\<rparr>"

definition db_commit :: "unit action" where
  "db_commit s =
     (case db_call_fails s of
        (True, s') \<Rightarrow> (Inl DatabaseError, s')
      | (False, s') \<Rightarrow> (Inr (), s'\<lparr>features_committed := features_pending s'\<rparr>))"

definition execute_values :: "feature_row list \<Rightarrow> unit action" where
  "execute_values rows s =
     (case db_call_fails s of
        (True, s') \<Rightarrow> (Inl DatabaseError, s')
      | (False, s') \<Rightarrow> (Inr (), s'\<lparr>features_pending := upsert rows (features_pending s')\<rparr>))"

text \<open>\<^verbatim>\<open>store_features\<close>: one statement and one commit for the rows of one record; on
  any exception the transaction is rolled back and the exception raised again.\<close>

definition store_features :: "pydict \<Rightarrow> unit action" where
  "store_features features s =
     (case pbind (lift (\<lambda>s. feature_inserts features))
             (\<lambda>rows. pbind (if rows \<noteq> [] then execute_values rows else ret ())
                (\<lambda>u. db_commit)) s
      of (Inl e, s') \<Rightarrow> (Inl e, db_rollback s')
       | (Inr u, s') \<Rightarrow> (Inr (), s'))"

definition producer_send_features :: "pydict \<Rightarrow> unit action" where
  "producer_send_features features s =
     (case kafka_send_fails s of
        (True, s') \<Rightarrow> (Inl KafkaError, s')
      | (False, s') \<Rightarrow> (Inr (), s'\<lparr>feature_events := feature_events s' @ [features]\<rparr>))"

definition producer_send_dlq :: "dlq_record \<Rightarrow> unit action" where
  "producer_send_dlq r s =
     (case kafka_send_fails s of
        (True, s') \<Rightarrow> (Inl KafkaError, s')
      | (False, s') \<Rightarrow> (Inr (), s'\<lparr>dead_letter_queue := dead_letter_queue s' @ [r]\<rparr>))"

text \<open>\<^verbatim>\<open>process_batch\<close>: its first loop computes, its second stores and publishes.\<close>

fun compute_loop ::
  "pyenv \<Rightarrow> registry \<Rightarrow> event list \<Rightarrow> pydict list \<Rightarrow> pstate \<Rightarrow> pydict list \<times> pstate" where
  "compute_loop env reg [] feature_batch s = (feature_batch, s)"
| "compute_loop env reg (event # events) feature_batch s =
     (case compute_features env reg event s of
        (Inr features, s') \<Rightarrow> compute_loop env reg events (feature_batch @ [features]) s'
      | (Inl e, s') \<Rightarrow>
          compute_loop env reg events feature_batch (s'\<lparr>events_failed := events_failed s' + 1\<rparr>))"

fun store_loop :: "pydict list \<Rightarrow> pstate \<Rightarrow> pstate" where
  "store_loop [] s = s"
| "store_loop (features # feature_batch) s =
     (case pbind (store_features features) (\<lambda>u. producer_send_features features) s of
        (Inr u, s') \<Rightarrow> store_loop feature_batch (s'\<lparr>events_processed := events_processed s' + 1\<rparr>)
      | (Inl e, s') \<Rightarrow> store_loop feature_batch (s'\<lparr>events_failed := events_failed s' + 1\<rparr>))"

definition process_batch :: "pyenv \<Rightarrow> registry \<Rightarrow> event list \<Rightarrow> pstate \<Rightarrow> pstate" where
  "process_batch env reg events s =
     (case compute_loop env reg events [] s of
        (feature_batch, s') \<Rightarrow> store_loop feature_batch s')"

text \<open>\<^verbatim>\<open>process_event\<close>, the single-event driver, with its dead-letter record.\<close>

definition process_event :: "pyenv \<Rightarrow> registry \<Rightarrow> event \<Rightarrow> pstate \<Rightarrow> pstate" where
  "process_event env reg event s =
     (case pbind (compute_features env reg event)
             (\<lambda>features. pbind (store_features features)
                (\<lambda>u. producer_send_features features)) s
      of (Inr u, s') \<Rightarrow> s'\<lparr>events_processed := events_processed s' + 1\<rparr>
       | (Inl e, s') \<Rightarrow>
           (case read_clock env (s'\<lparr>events_failed := events_failed s' + 1\<rparr>) of
              ((now_iso, now_ts), s1) \<Rightarrow>
                snd (producer_send_dlq
                       \<lparr>dlq_original_event = event, dlq_error = e, dlq_timestamp = now_iso\<rparr>
                       s1)))"

subsection \<open>A concrete environment\<close>

text \<open>
  For evaluating the program at an input. \<open>iso_basic\<close> reads the texts
  \<^verbatim>\<open>YYYY-MM-DDTHH:MM:SS\<close>, optionally followed by \<^verbatim>\<open>.ffffff\<close> and by an offset
  \<^verbatim>\<open>+HH:MM\<close> or \<^verbatim>\<open>-HH:MM\<close>: the shapes \<^verbatim>\<open>datetime.isoformat()\<close> writes, on which it agrees
  with \<^verbatim>\<open>datetime.fromisoformat\<close>; every other text is refused. The day count follows
  \<^verbatim>\<open>date.toordinal()\<close>. \<open>dec_int\<close> agrees with \<^verbatim>\<open>int\<close> on plain decimal numerals.
  \<open>md5_known\<close> holds the digests of the user ids used below (and \<open>0\<close> elsewhere), and the
  clock stands still at noon of 2024-01-01.
\<close>

fun two_digits :: "string \<Rightarrow> (nat \<times> string) option" where
  "two_digits (a # b # rest) =
     (case digit_val a of
        None \<Rightarrow> None
      | Some x \<Rightarrow> (case digit_val b of None \<Rightarrow> None | Some y \<Rightarrow> Some (10 * x + y, rest)))"
| "two_digits [a] = None"
| "two_digits [] = None"

fun expect :: "char \<Rightarrow> string \<Rightarrow> string option" where
  "expect c (x # rest) = (if x = c then Some rest else None)"
| "expect c [] = None"

definition is_leap :: "nat \<Rightarrow> bool" where
  "is_leap y = (y mod 4 = 0 \<and> (y mod 100 \<noteq> 0 \<or> y mod 400 = 0))"

definition days_in_month :: "nat \<Rightarrow> nat \<Rightarrow> nat" where
  "days_in_month y m =
     (if m = 2 then (if is_leap y then 29 else 28)
      else if m = 4 \<or> m = 6 \<or> m = 9 \<or> m = 11 then 30 else 31)"

definition days_before_year :: "nat \<Rightarrow> nat" where
  "days_before_year y = (y - 1) * 365 + (y - 1) div 4 - (y - 1) div 100 + (y - 1) div 400"

definition days_before_month :: "nat \<Rightarrow> nat \<Rightarrow> nat" where
  "days_before_month y m =
     [0, 31, 59, 90, 120, 151, 181, 212, 243, 273, 304, 334] ! (m - 1)
     + (if 2 < m \<and> is_leap y then 1 else 0)"

text \<open>The date, as days since 0001-01-01.\<close>

definition parse_ymd :: "string \<Rightarrow> (nat \<times> string) option" where
  "parse_ymd s =
     Option.bind (two_digits s) (\<lambda>(c, s1).
     Option.bind (two_digits s1) (\<lambda>(yy, s2).
     Option.bind (expect CHR ''-'' s2) (\<lambda>s3.
     Option.bind (two_digits s3) (\<lambda>(m, s4).
     Option.bind (expect CHR ''-'' s4) (\<lambda>s5.
     Option.bind (two_digits s5) (\<lambda>(d, s6).
       let y = 100 * c + yy
       in if 1 \<le> y \<and> 1 \<le> m \<and> m \<le> 12 \<and> 1 \<le> d \<and> d \<le> days_in_month y m
          then Some (days_before_year y + days_before_month y m + d - 1, s6)
          else None))))))"

text \<open>The time of day, in seconds.\<close>

definition parse_hms :: "string \<Rightarrow> (nat \<times> string) option" where
  "parse_hms s =
     Option.bind (two_digits s) (\<lambda>(h, s1).
     Option.bind (expect CHR '':'' s1) (\<lambda>s2.
     Option.bind (two_digits s2) (\<lambda>(mi, s3).
     Option.bind (expect CHR '':'' s3) (\<lambda>s4.
     Option.bind (two_digits s4) (\<lambda>(sec, s5).
       if h < 24 \<and> mi < 60 \<and> sec < 60 then Some (h * 3600 + mi * 60 + sec, s5)
       else None)))))"

text \<open>The optional fraction, in microseconds.\<close>

definition parse_fraction :: "string \<Rightarrow> (nat \<times> string) option" where
  "parse_fraction s =
     (case s of
        [] \<Rightarrow> Some (0, [])
      | c # cs \<Rightarrow>
          if c = CHR ''.'' then
            Option.bind (two_digits cs) (\<lambda>(a, s1).
            Option.bind (two_digits s1) (\<lambda>(b, s2).
            Option.bind (two_digits s2) (\<lambda>(d, s3). Some (10000 * a + 100 * b + d, s3))))
          else Some (0, s))"

text \<open>The optional offset, in microseconds.\<close>

definition parse_offset :: "string \<Rightarrow> int option option" where
  "parse_offset s =
     (case s of
        [] \<Rightarrow> Some None
      | c # cs \<Rightarrow>
          if c = CHR ''+'' \<or> c = CHR ''-'' then
            Option.bind (two_digits cs) (\<lambda>(h, s1).
            Option.bind (expect CHR '':'' s1) (\<lambda>s2.
            Option.bind (two_digits s2) (\<lambda>(mi, s3).
              if s3 = [] \<and> h < 24 \<and> mi < 60
              then Some (Some ((if c = CHR ''-'' then - 1 else 1)
                               * (int h * 3600 + int mi * 60) * 1000000))
              else None)))
          else None)"

definition iso_basic :: "string \<Rightarrow> datetime option" where
  "iso_basic s =
     Option.bind (parse_ymd s) (\<lambda>(days, s1).
     Option.bind (expect CHR ''T'' s1) (\<lambda>s2.
     Option.bind (parse_hms s2) (\<lambda>(secs, s3).
     Option.bind (parse_fraction s3) (\<lambda>(frac, s4).
     Option.bind (parse_offset s4) (\<lambda>off.
       Some \<lparr>dt_micros = (int days * 86400 + int secs) * 1000000 + int frac,
             dt_utcoffset = off\<rparr>)))))"

definition md5_known :: "string \<Rightarrow> nat" where
  "md5_known u =
     (if u = ''u1'' then 303683425387344438270480526878860602804
      else if u = ''user_0'' then 240410121040918136004584965889274523072
      else 0)"

definition still_clock :: "nat \<Rightarrow> string \<times> real" where
  "still_clock n = (''2024-01-01T12:00:00'', 1704110400)"

definition py_env :: pyenv where
  "py_env = \<lparr>md5_int = md5_known, fromisoformat = iso_basic, int_of_str = dec_int,
             utcnow = still_clock\<rparr>"

text \<open>A registry that gates nothing (no variant table, no feature definitions), with A/B
  testing and drift detection off; the empty stores.\<close>

definition plain_registry :: registry where
  "plain_registry =
     \<lparr>reg_version = ''v1'', reg_features = [], reg_default_ttl_seconds = None,
      reg_feature_ttls = Map.empty, ab_enabled = False, ab_variants = [],
      drift_enabled = False, drift_thresholds = Map.empty\<rparr>"

definition empty_state :: pstate where
  "empty_state =
     \<lparr>redis = Map.empty, redis_hashes = (\<lambda>k. []), redis_hash_ttl = Map.empty,
      redis_zsets = (\<lambda>k. []), raw_events = [], db_now = 1704110400,
      features_committed = Map.empty, features_pending = Map.empty,
      db_faults = [], kafka_faults = [],
      feature_events = [], dead_letter_queue = [],
      events_processed = 0, events_failed = 0, cache_hits = 0, cache_misses = 0,
      ab_variant_counter = [], drift_alerts = [], tick = 0\<rparr>"

definition view_event :: "string \<Rightarrow> string \<Rightarrow> event" where
  "view_event u t =
     \<lparr>ev_user_id = Some u, ev_event_type = Some ''view'', ev_ingested_at = Some t,
      ev_device_type = None, ev_passthrough = []\<rparr>"

text \<open>Two registries with a variant table: an even split with A/B testing on, and a
  single variant named \<open>control\<close> with A/B testing off.\<close>

definition ab_registry :: registry where
  "ab_registry =
     plain_registry\<lparr>ab_enabled := True,
       ab_variants := map variant_of_row [(''A'', 50, ''v1''), (''B'', 50, ''v2'')]\<rparr>"

definition control_registry :: registry where
  "control_registry =
     plain_registry\<lparr>ab_variants := map variant_of_row [(''control'', 100, ''v1'')]\<rparr>"

text \<open>A registry whose only variant, \<open>A\<close>, computes version \<open>v1\<close>, and which defines
  \<^verbatim>\<open>seconds_since_last_event\<close> as a feature of version \<open>v3\<close>: not active for \<open>A\<close>.\<close>

definition gated_registry :: registry where
  "gated_registry =
     plain_registry\<lparr>
       reg_features :=
         [(''session'',
           [\<lparr>fd_name = Some ''seconds_since_last_event'', fd_version = Some ''v3''\<rparr>])],
       ab_variants := map variant_of_row [(''A'', 100, ''v1'')]\<rparr>"

text \<open>A cache that remembers a last event of user \<open>u1\<close> (and of \<open>u2\<close>) at midnight, and a
  cache that holds, besides, a one-hour counter of \<open>5\<close> for \<open>u1\<close> and no 24-hour counter.\<close>

definition seen_state :: pstate where
  "seen_state =
     empty_state\<lparr>redis :=
       [''last_event:u1'' \<mapsto> (''2024-01-01T00:00:00'', Some 86400),
        ''last_event:u2'' \<mapsto> (''2024-01-01T00:00:00'', Some 86400)]\<rparr>"

definition busy_hour_state :: pstate where
  "busy_hour_state =
     seen_state\<lparr>redis := (redis seen_state)(''activity:u1:3600'' \<mapsto> (''5'', Some 300))\<rparr>"

text \<open>A view event of user \<open>u1\<close> ten seconds past midnight, and the record that
  \<^verbatim>\<open>compute_features\<close> returns for it on \<open>seen_state\<close> with the plain registry.\<close>

definition first_event :: event where
  "first_event = view_event ''u1'' ''2024-01-01T00:00:10''"

definition seen_record :: pydict where
  "seen_record =
     [(''user_id'', PStr ''u1''), (''event_type'', PStr ''view''),
      (''timestamp'', PStr ''2024-01-01T00:00:10''),
      (''computed_at'', PStr ''2024-01-01T12:00:00''),
      (''feature_version'', PStr ''v1''), (''ab_variant'', PStr ''A''),
      (''hour_of_day'', PInt 0), (''day_of_week'', PInt 0), (''is_weekend'', PBool False),
      (''event_type_login'', PInt 0), (''event_type_logout'', PInt 0),
      (''event_type_purchase'', PInt 0), (''event_type_view'', PInt 1),
      (''event_type_click'', PInt 0), (''event_type_search'', PInt 0),
      (''device_type_mobile'', PInt 0), (''device_type_desktop'', PInt 0),
      (''device_type_tablet'', PInt 0),
      (''activity_count_1h'', PInt 1), (''activity_count_6h'', PInt 1),
      (''activity_count_24h'', PInt 1), (''activity_count_7d'', PInt 1),
      (''event_type_frequency_24h'', PInt 1),
      (''seconds_since_last_event'', PFloat 10),
      (''is_active_session'', PBool True), (''is_new_user'', PBool True),
      (''activity_trend'', PFloat 1), (''purchase_rate_24h'', PFloat 0),
      (''engagement_score'', PInt 20),
      (''raw_event'', PEvent first_event)]"

text \<open>A second event, of user \<open>u2\<close>, and a state in which the eleventh database
  statement fails: for a batch of the two events on \<open>seen_state\<close>, that is the
  \<^verbatim>\<open>INSERT\<close> of the second record (after eight counting queries, and the \<^verbatim>\<open>INSERT\<close> and
  the \<^verbatim>\<open>COMMIT\<close> of the first record).\<close>

definition second_event :: event where
  "second_event = view_event ''u2'' ''2024-01-01T00:00:10''"

definition flaky_state :: pstate where
  "flaky_state =
     seen_state\<lparr>db_faults :=
       [False, False, False, False, False, False, False, False, False, False, True]\<rparr>"

text \<open>Whether the feature store holds a committed row for a user and a feature name, and
  what a batch left behind: who has an engagement score stored, and the two counters.\<close>

definition stored :: "pstate \<Rightarrow> string \<Rightarrow> string \<Rightarrow> bool" where
  "stored s u name = (features_committed s (PStr u, name) \<noteq> None)"

definition batch_outcome :: "pstate \<Rightarrow> bool \<times> bool \<times> nat \<times> nat" where
  "batch_outcome s =
     (stored s ''u1'' ''engagement_score'', stored s ''u2'' ''engagement_score'',
      events_processed s, events_failed s)"

text \<open>The record of a user without a stored last event, when \<^verbatim>\<open>is_active_session\<close> is
  not active for the variant: \<open>seen_record\<close> with \<^verbatim>\<open>seconds_since_last_event = None\<close> and
  without \<^verbatim>\<open>is_active_session\<close>.\<close>

definition fresh_record :: pydict where
  "fresh_record =
     AList.update ''seconds_since_last_event'' PNone
       (AList.delete ''is_active_session'' seen_record)"

text \<open>A registry with drift monitoring on and a mean-shift threshold of 10 for
  \<^verbatim>\<open>engagement_score\<close>, and a cache that holds a baseline of mean 0 for it.\<close>

definition drift_registry :: registry where
  "drift_registry =
     plain_registry\<lparr>drift_enabled := True,
       drift_thresholds :=
         [''engagement_score'' \<mapsto> \<lparr>th_mean_shift = Some 10, th_std_shift = None\<rparr>]\<rparr>"

definition drifting_state :: pstate where
  "drifting_state =
     empty_state\<lparr>redis_hashes :=
       (\<lambda>k. [])(''drift:baseline:engagement_score'' :=
          [(''count'', PInt 1), (''mean'', PFloat 0), (''m2'', PFloat 0), (''std'', PInt 0)])\<rparr>"

subsection \<open>Vocabulary of the statements\<close>

text \<open>The registry name that gates an output key: a one-hot key is gated by the name of
  its group, every other key by its own name. The three keys that \<^verbatim>\<open>compute_features\<close>
  writes without asking the registry.\<close>

definition gate_of :: "string \<Rightarrow> string" where
  "gate_of k =
     (if k \<in> set (map (\<lambda>t. ''event_type_'' @ t) event_types) then ''event_type_encoded''
      else if k \<in> set (map (\<lambda>t. ''device_type_'' @ t) device_types) then ''device_type_encoded''
      else k)"

definition ungated_keys :: "string list" where
  "ungated_keys = [''seconds_since_last_event'', ''engagement_score'', ''engagement_score_v2'']"

text \<open>The value of a key in the record a computation returned (\<open>None\<close> when it raised or
  the key is missing).\<close>

definition feature_of :: "(pyerr + pydict) \<times> pstate \<Rightarrow> string \<Rightarrow> pyval option" where
  "feature_of r key = (case fst r of Inl e \<Rightarrow> None | Inr features \<Rightarrow> map_of features key)"

text \<open>What \<^verbatim>\<open>compute_features\<close> never writes: the dead-letter topic and the table
  \<^verbatim>\<open>features\<close>, committed and pending. An action that leaves them as they are.\<close>

definition outputs ::
  "pstate \<Rightarrow> dlq_record list \<times> (pyval \<times> string \<rightharpoonup> feature_row) \<times> (pyval \<times> string \<rightharpoonup> feature_row)" where
  "outputs s = (dead_letter_queue s, features_committed s, features_pending s)"

definition keeps_outputs :: "'a action \<Rightarrow> bool" where
  "keeps_outputs m = (\<forall>s. outputs (snd (m s)) = outputs s)"

text \<open>The rows of a record, none when building them raises.\<close>

definition rows_of :: "pydict \<Rightarrow> feature_row list" where
  "rows_of features = (case feature_inserts features of Inr rows \<Rightarrow> rows | Inl e \<Rightarrow> [])"

text \<open>The count that the specification asks of the feature store on a cache miss: the
  user's rows of \<^verbatim>\<open>raw_events\<close> with \<^verbatim>\<open>timestamp > now() - window_seconds\<close>. Whether
  the next database statement fails.\<close>

definition historical_count :: "pstate \<Rightarrow> string \<Rightarrow> int \<Rightarrow> int" where
  "historical_count s user_id window_seconds =
     int (length (filter (\<lambda>r. fst r = user_id \<and> db_now s - real_of_int window_seconds < snd r)
                    (raw_events s)))"

definition next_db_call_fails :: "pstate \<Rightarrow> bool" where
  "next_db_call_fails s = (case db_faults s of [] \<Rightarrow> False | f # fs \<Rightarrow> f)"

text \<open>Recording a sequence of values of one feature, one after the other.\<close>

fun record_all :: "pyenv \<Rightarrow> registry \<Rightarrow> string \<Rightarrow> pyval list \<Rightarrow> unit action" where
  "record_all env reg feature_name [] s = (Inr (), s)"
| "record_all env reg feature_name (v # vs) s =
     (case record_feature_value env reg feature_name v s of
        (Inl e, s') \<Rightarrow> (Inl e, s')
      | (Inr u, s') \<Rightarrow> record_all env reg feature_name vs s')"

section \<open>Properties\<close>

subsection \<open>Dictionaries and sequencing\<close>


lemma keys_Nil [simp]: "keys [] = {}"
  by (simp add: keys_def)
lemma keys_Cons [simp]: "keys ((k, v) # d) = insert k (keys d)"
  by (simp add: keys_def)
lemma keys_update [simp]: "keys (AList.update k v d) = insert k (keys d)"
  by (simp add: keys_def dom_update)

lemma keys_dict_update [simp]: "keys (dict_update d other) = keys d \<union> keys other"
  unfolding dict_update_def
  by (induction other arbitrary: d) auto

lemma map_of_dict_update_other:
  "k \<notin> keys other \<Longrightarrow> map_of (dict_update d other) k = map_of d k"
  unfolding dict_update_def
  by (induction other arbitrary: d) (auto simp: update_conv')

lemma map_of_eq_None_keys: "map_of d k = None \<longleftrightarrow> k \<notin> keys d"
  by (simp add: keys_def map_of_eq_None_iff)

lemma pbind_Inr:
  "pbind m f s = (Inr y, s') \<longleftrightarrow> (\<exists>x s1. m s = (Inr x, s1) \<and> f x s1 = (Inr y, s'))"
  by (auto simp: pbind_def split: prod.splits sum.splits)

lemma ebind_Inr: "ebind r f = Inr y \<longleftrightarrow> (\<exists>x. r = Inr x \<and> f x = Inr y)"
  by (auto simp: ebind_def split: sum.splits)

lemma lift_Inr: "lift g s = (Inr y, s') \<longleftrightarrow> g s = Inr y \<and> s' = s"
  by (auto simp: lift_def)

lemma ret_eq: "ret x s = (r, s') \<longleftrightarrow> r = Inr x \<and> s' = s"
  by (auto simp: ret_def)

lemma compute_features_Inr:
  assumes "compute_features env reg ev s0 = (Inr f, s')"
  obtains timestamp computed_at s3 temporal s4 win sw seconds sl f3 f4 sn rf es where
    "compute_temporal_features env reg ev (get_user_variant env reg (get_user_id ev)) s3
       = (temporal, s4)"
    "compute_windowed_aggregations env reg (get_user_id ev) (get_event_type ev)
       (get_user_variant env reg (get_user_id ev)) s4 = (Inr win, sw)"
    "time_since_last_event env (get_user_id ev) timestamp sw = (Inr seconds, sl)"
    "session_indicator reg (get_user_variant env reg (get_user_id ev))
       (AList.update ''seconds_since_last_event'' seconds
          (dict_update
             (dict_update
                (dict_update
                   [(''user_id'', PStr (get_user_id ev)),
                    (''event_type'', PStr (get_event_type ev)),
                    (''timestamp'', PStr timestamp), (''computed_at'', PStr computed_at),
                    (''feature_version'', PStr (reg_version reg)),
                    (''ab_variant'', PStr (get_user_variant env reg (get_user_id ev)))]
                   temporal)
                (compute_categorical_features reg ev (get_user_variant env reg (get_user_id ev))))
             win)) = Inr f3"
    "new_user_indicator env reg (get_user_id ev) timestamp
       (get_user_variant env reg (get_user_id ev)) f3 sl = (Inr f4, sn)"
    "compute_ratio_features env reg (get_user_id ev) f4
       (get_user_variant env reg (get_user_id ev)) sn = Inr rf"
    "compute_engagement_score reg (dict_update f4 rf)
       (get_user_variant env reg (get_user_id ev)) = Inr es"
    "f = AList.update ''raw_event'' (PEvent ev)
           (AList.update
              (if get_user_variant env reg (get_user_id ev) = ''B''
               then ''engagement_score_v2'' else ''engagement_score'')
              (PInt es) (dict_update f4 rf))"
  using assms
  unfolding compute_features_def Let_def
  by (auto simp: pbind_Inr lift_Inr ret_eq split: prod.splits)


subsection \<open>The keys each stage writes\<close>

lemma keys_temporal:
  assumes "compute_temporal_features env reg ev v s = (t, s1)" and "k \<in> keys t"
  shows "k \<in> {''hour_of_day'', ''day_of_week'', ''is_weekend''} \<and> should_compute_feature reg k v"
  using assms
  by (auto simp: compute_temporal_features_def set_if_def Let_def
           split: prod.splits option.splits if_splits)

lemma keys_one_hot: "keys (one_hot p names a d) = keys d \<union> (\<lambda>n. p @ n) ` set names"
  unfolding one_hot_def
  by (induction names arbitrary: d) auto

lemma keys_categorical:
  assumes "k \<in> keys (compute_categorical_features reg ev v)"
  shows "(k \<in> (\<lambda>n. ''event_type_'' @ n) ` set event_types
            \<and> should_compute_feature reg ''event_type_encoded'' v)
         \<or> (k \<in> (\<lambda>n. ''device_type_'' @ n) ` set device_types
            \<and> should_compute_feature reg ''device_type_encoded'' v)"
  using assms
  by (auto simp: compute_categorical_features_def Let_def keys_one_hot split: if_splits)

lemma keys_windows_loop:
  assumes "windows_loop env reg u v ws d s = (Inr win, s')" and "k \<in> keys win"
  shows "k \<in> keys d \<or> (k \<in> fst ` set ws \<and> should_compute_feature reg k v)"
  using assms
proof (induction ws arbitrary: d s)
  case Nil
  then show ?case by simp
next
  case (Cons w ws)
  obtain n secs where w: "w = (n, secs)" by (cases w)
  show ?case
  proof (cases "should_compute_feature reg n v")
    case False
    with Cons.prems w have "windows_loop env reg u v ws d s = (Inr win, s')" by simp
    from Cons.IH [OF this Cons.prems(2)] show ?thesis by auto
  next
    case True
    with Cons.prems w obtain c s1 where
      "windows_loop env reg u v ws (AList.update n (PInt c) d) s1 = (Inr win, s')"
      by (auto split: prod.splits sum.splits)
    from Cons.IH [OF this Cons.prems(2)] True w show ?thesis by auto
  qed
qed

lemma keys_windowed:
  assumes "compute_windowed_aggregations env reg u et v s = (Inr win, s')" and "k \<in> keys win"
  shows "k \<in> {''activity_count_1h'', ''activity_count_6h'', ''activity_count_24h'',
               ''activity_count_7d'', ''event_type_frequency_24h''}
         \<and> should_compute_feature reg k v"
proof -
  from assms(1) obtain win0 s1 where
    loop: "windows_loop env reg u v windows [] s = (Inr win0, s1)" and
    rest: "win = win0 \<or> (should_compute_feature reg ''event_type_frequency_24h'' v
                        \<and> (\<exists>n. win = AList.update ''event_type_frequency_24h'' (PInt n) win0))"
    by (auto simp: compute_windowed_aggregations_def pbind_Inr ret_eq split: if_splits)
  from rest assms(2) have "k \<in> keys win0
      \<or> (k = ''event_type_frequency_24h'' \<and> should_compute_feature reg k v)" by auto
  moreover have "k \<in> keys win0 \<Longrightarrow> k \<in> fst ` set windows \<and> should_compute_feature reg k v"
    using keys_windows_loop [OF loop] by auto
  ultimately show ?thesis by (auto simp: windows_def)
qed

lemma session_indicator_keys:
  assumes "session_indicator reg v d = Inr f3"
  shows "keys f3 \<subseteq> keys d \<union> {k. k = ''is_active_session'' \<and> should_compute_feature reg k v}"
    and "k \<noteq> ''is_active_session'' \<Longrightarrow> map_of f3 k = map_of d k"
  using assms
  by (auto simp: session_indicator_def ebind_Inr update_conv' split: if_splits)

lemma new_user_indicator_keys:
  assumes "new_user_indicator env reg u ts v d s = (Inr f4, s')"
  shows "keys f4 \<subseteq> keys d \<union> {k. k = ''is_new_user'' \<and> should_compute_feature reg k v}"
    and "k \<noteq> ''is_new_user'' \<Longrightarrow> map_of f4 k = map_of d k"
  using assms
  by (auto simp: new_user_indicator_def Let_def pbind_Inr ret_eq update_conv'
           split: if_splits option.splits)

lemma ratio_features_keys:
  assumes "compute_ratio_features env reg u d v s = Inr rf" and "k \<in> keys rf"
  shows "k \<in> {''activity_trend'', ''purchase_rate_24h''} \<and> should_compute_feature reg k v"
  using assms
  by (auto simp: compute_ratio_features_def ebind_Inr split: if_splits)

lemma gate_of_plain:
  "k \<in> {''hour_of_day'', ''day_of_week'', ''is_weekend'', ''activity_count_1h'',
         ''activity_count_6h'', ''activity_count_24h'', ''activity_count_7d'',
         ''event_type_frequency_24h'', ''is_active_session'', ''is_new_user'',
         ''activity_trend'', ''purchase_rate_24h''} \<Longrightarrow> gate_of k = k"
  by (auto simp: gate_of_def event_types_def device_types_def)

lemma gate_of_event_type:
  "k \<in> (\<lambda>n. ''event_type_'' @ n) ` set event_types \<Longrightarrow> gate_of k = ''event_type_encoded''"
  by (auto simp: gate_of_def)

lemma gate_of_device_type:
  "k \<in> (\<lambda>n. ''device_type_'' @ n) ` set device_types \<Longrightarrow> gate_of k = ''device_type_encoded''"
  by (auto simp: gate_of_def event_types_def device_types_def)

subsection \<open>What the feature computer never writes\<close>

lemma keeps_outputsD: "keeps_outputs m \<Longrightarrow> m s = (r, s') \<Longrightarrow> outputs s' = outputs s"
  unfolding keeps_outputs_def by (metis snd_conv)

lemma keeps_outputs_pbind:
  assumes "keeps_outputs m" and "\<And>x. keeps_outputs (f x)"
  shows "keeps_outputs (pbind m f)"
  unfolding keeps_outputs_def
proof
  fix s
  obtain r s1 where m: "m s = (r, s1)" by (cases "m s")
  from keeps_outputsD [OF assms(1) m] have s1: "outputs s1 = outputs s" .
  show "outputs (snd (pbind m f s)) = outputs s"
  proof (cases r)
    case (Inl e)
    with m s1 show ?thesis by (simp add: pbind_def)
  next
    case (Inr x)
    obtain r2 s2 where f: "f x s1 = (r2, s2)" by (cases "f x s1")
    from keeps_outputsD [OF assms(2) f] s1 m Inr f show ?thesis by (simp add: pbind_def)
  qed
qed

lemma keeps_outputs_ret [simp]: "keeps_outputs (ret x)"
  by (simp add: keeps_outputs_def outputs_def ret_def)

lemma keeps_outputs_lift [simp]: "keeps_outputs (lift g)"
  by (simp add: keeps_outputs_def outputs_def lift_def)

lemma keeps_outputs_setex [simp]: "keeps_outputs (redis_setex k t v)"
  by (simp add: keeps_outputs_def outputs_def redis_setex_def)

lemma keeps_outputs_incr [simp]: "keeps_outputs (redis_incr k)"
  by (simp add: keeps_outputs_def outputs_def redis_incr_def split: option.splits prod.splits)

lemma outputs_read_clock: "read_clock env s = (c, s') \<Longrightarrow> outputs s' = outputs s"
  by (auto simp: read_clock_def outputs_def)

lemma outputs_temporal:
  "compute_temporal_features env reg ev v s = (t, s') \<Longrightarrow> outputs s' = outputs s"
  by (auto simp: compute_temporal_features_def read_clock_def Let_def outputs_def
           split: prod.splits option.splits)

lemma keeps_outputs_activity_window [simp]: "keeps_outputs (activity_window env reg u n w)"
  unfolding activity_window_def Let_def
  by (intro keeps_outputs_pbind keeps_outputs_setex keeps_outputs_ret)
     (simp add: keeps_outputs_def outputs_def get_activity_count_from_db_def db_call_fails_def
           split: option.splits prod.splits list.splits bool.splits)

lemma keeps_outputs_windows_loop [simp]: "keeps_outputs (windows_loop env reg u v ws d)"
proof (induction ws arbitrary: d)
  case Nil
  show ?case by (simp add: keeps_outputs_def outputs_def)
next
  case (Cons w ws)
  obtain n secs where w: "w = (n, secs)" by (cases w)
  show ?case
    unfolding keeps_outputs_def
  proof
    fix s
    show "outputs (snd (windows_loop env reg u v (w # ws) d s)) = outputs s"
    proof (cases "should_compute_feature reg n v")
      case False
      with w Cons.IH [of d] show ?thesis by (simp add: keeps_outputs_def outputs_def)
    next
      case True
      obtain r s1 where a: "activity_window env reg u n secs s = (r, s1)"
        by (cases "activity_window env reg u n secs s")
      from keeps_outputsD [OF keeps_outputs_activity_window a]
      have s1: "outputs s1 = outputs s" .
      show ?thesis
      proof (cases r)
        case (Inl e)
        with True w a s1 show ?thesis by simp
      next
        case (Inr c)
        with True w a s1 Cons.IH [of "AList.update n (PInt c) d"] show ?thesis
          by (simp add: keeps_outputs_def outputs_def)
      qed
    qed
  qed
qed

lemma keeps_outputs_event_type_frequency [simp]: "keeps_outputs (event_type_frequency env u et)"
  unfolding event_type_frequency_def Let_def
  by (intro keeps_outputs_pbind keeps_outputs_incr)
     (simp add: keeps_outputs_def outputs_def redis_expire_def split: option.splits prod.splits)

lemma keeps_outputs_windowed [simp]: "keeps_outputs (compute_windowed_aggregations env reg u et v)"
  unfolding compute_windowed_aggregations_def
  by (intro keeps_outputs_pbind keeps_outputs_windows_loop) (simp add: keeps_outputs_pbind)

lemma keeps_outputs_time_since [simp]: "keeps_outputs (time_since_last_event env u ts)"
proof -
  have "time_since_last_event env u ts =
    (\<lambda>s. pbind (redis_setex (''last_event:'' @ u) 86400 ts)
       (\<lambda>x. ret (case redis_get s (''last_event:'' @ u) of None \<Rightarrow> PNone
             | Some last_event_time \<Rightarrow>
                 (case fromisoformat env last_event_time of
                    None \<Rightarrow> PNone
                  | Some last_time \<Rightarrow>
                      (case fromisoformat env (replace_Z ts) of
                         None \<Rightarrow> PNone
                       | Some current_time \<Rightarrow>
                           (case dt_sub current_time last_time of
                              Inl e \<Rightarrow> PNone
                            | Inr d \<Rightarrow> PFloat (total_seconds d)))))) s)"
    by (rule ext) (simp add: time_since_last_event_def Let_def)
  then show ?thesis
    by (simp add: keeps_outputs_def outputs_def pbind_def redis_setex_def ret_def)
qed

lemma keeps_outputs_new_user [simp]: "keeps_outputs (new_user_indicator env reg u ts v d)"
  by (simp add: keeps_outputs_def outputs_def new_user_indicator_def Let_def pbind_def redis_setex_def ret_def
           split: option.splits)

lemma keeps_outputs_update_statistics [simp]: "keeps_outputs (update_statistics n v)"
  by (simp add: keeps_outputs_def outputs_def update_statistics_def Let_def redis_hexpire_def redis_hset_def
           split: sum.splits)

lemma keeps_outputs_check_drift [simp]: "keeps_outputs (check_drift reg n)"
  by (simp add: keeps_outputs_def outputs_def check_drift_def Let_def redis_hexpire_def redis_hset_def
           split: sum.splits option.splits)

lemma keeps_outputs_record [simp]: "keeps_outputs (record_feature_value env reg n v)"
  unfolding keeps_outputs_def
proof
  fix s :: pstate
  obtain iso ts where c: "utcnow env (tick s) = (iso, ts)" by (cases "utcnow env (tick s)")
  let ?s3 = "redis_zremrangebyscore (''drift:values:'' @ n) (ts - 3600)
     (redis_zadd (''drift:values:'' @ n) (ts, v) ts (s\<lparr>tick := tick s + 1\<rparr>))"
  have a: "outputs ?s3 = outputs s"
    by (simp add: redis_zremrangebyscore_def redis_zadd_def outputs_def)
  have "keeps_outputs (pbind (update_statistics n v) (\<lambda>u. check_drift reg n))"
    by (intro keeps_outputs_pbind) simp_all
  then have b: "outputs (snd (pbind (update_statistics n v) (\<lambda>u. check_drift reg n) ?s3))
       = outputs ?s3"
    by (simp only: keeps_outputs_def outputs_def)
  show "outputs (snd (record_feature_value env reg n v s)) = outputs s"
  proof (cases "\<not> drift_enabled reg \<or> v = PNone")
    case True
    then show ?thesis by (auto simp: record_feature_value_def)
  next
    case False
    then have "record_feature_value env reg n v s
                 = pbind (update_statistics n v) (\<lambda>u. check_drift reg n) ?s3"
      by (simp add: record_feature_value_def read_clock_def c Let_def)
    with a b show ?thesis by simp
  qed
qed

lemma keeps_outputs_option [simp]:
  "keeps_outputs (case x of Some c \<Rightarrow> record_feature_value env reg n c | None \<Rightarrow> ret ())"
  by (cases x) simp_all

lemma keeps_outputs_compute_features: "keeps_outputs (compute_features env reg ev)"
  unfolding keeps_outputs_def
proof
  fix s0 :: pstate
  obtain iso1 ts1 s1 where r1: "read_clock env s0 = ((iso1, ts1), s1)"
    by (metis prod.exhaust)
  let ?v = "get_user_variant env reg (get_user_id ev)"
  let ?s2 = "s1\<lparr>ab_variant_counter := ab_variant_counter s1 @ [?v]\<rparr>"
  obtain iso2 ts2 s3 where r2: "read_clock env ?s2 = ((iso2, ts2), s3)"
    by (metis prod.exhaust)
  obtain t s4 where r3: "compute_temporal_features env reg ev ?v s3 = (t, s4)"
    by (cases "compute_temporal_features env reg ev ?v s3")
  have d4: "outputs s4 = outputs s0"
    using outputs_read_clock [OF r1] outputs_read_clock [OF r2] outputs_temporal [OF r3]
    by (simp add: outputs_def)
  have k: "\<And>m :: pydict action. keeps_outputs m
              \<Longrightarrow> outputs (snd (m s4)) = outputs s0"
    using d4 by (simp add: keeps_outputs_def outputs_def)
  show "outputs (snd (compute_features env reg ev s0)) = outputs s0"
    unfolding compute_features_def Let_def r1 r2 r3 prod.case
    by (intro k keeps_outputs_pbind keeps_outputs_windowed keeps_outputs_time_since keeps_outputs_lift
          keeps_outputs_new_user keeps_outputs_record keeps_outputs_option keeps_outputs_ret)
qed

lemma outputs_compute_loop:
  "compute_loop env reg events fb s = (fb', s') \<Longrightarrow> outputs s' = outputs s"
proof (induction events arbitrary: fb s)
  case Nil
  then show ?case by simp
next
  case (Cons ev events)
  obtain r s1 where c: "compute_features env reg ev s = (r, s1)"
    by (cases "compute_features env reg ev s")
  from keeps_outputsD [OF keeps_outputs_compute_features c]
  have s1: "outputs s1 = outputs s" .
  show ?case
  proof (cases r)
    case (Inl e)
    with Cons.prems c
    have "compute_loop env reg events fb (s1\<lparr>events_failed := events_failed s1 + 1\<rparr>) = (fb', s')"
      by simp
    from Cons.IH [OF this] s1 show ?thesis by (simp add: outputs_def)
  next
    case (Inr f)
    with Cons.prems c have "compute_loop env reg events (fb @ [f]) s1 = (fb', s')" by simp
    from Cons.IH [OF this] s1 show ?thesis by simp
  qed
qed

subsection \<open>What is never sent to the dead-letter topic\<close>

lemma dlq_store_and_send:
  "pbind (store_features f) (\<lambda>u. producer_send_features f) s = (r, s') \<Longrightarrow>
   dead_letter_queue s' = dead_letter_queue s"
  by (auto simp: store_features_def pbind_def lift_def ret_def execute_values_def db_commit_def
        db_call_fails_def db_rollback_def producer_send_features_def kafka_send_fails_def
        split: sum.splits prod.splits list.splits bool.splits if_splits)

lemma dlq_store_loop: "dead_letter_queue (store_loop fb s) = dead_letter_queue s"
proof (induction fb arbitrary: s)
  case Nil
  show ?case by simp
next
  case (Cons f fb)
  obtain r s1 where c: "pbind (store_features f) (\<lambda>u. producer_send_features f) s = (r, s1)"
    by (cases "pbind (store_features f) (\<lambda>u. producer_send_features f) s")
  from dlq_store_and_send [OF c] have s1: "dead_letter_queue s1 = dead_letter_queue s" .
  show ?case
    using c s1 Cons.IH by (cases r) simp_all
qed

lemma dlq_process_batch:
  "dead_letter_queue (process_batch env reg events s) = dead_letter_queue s"
proof -
  obtain fb s1 where c: "compute_loop env reg events [] s = (fb, s1)"
    by (cases "compute_loop env reg events [] s")
  from outputs_compute_loop [OF c] have "dead_letter_queue s1 = dead_letter_queue s"
    by (simp add: outputs_def)
  with dlq_store_loop [of fb s1] c show ?thesis
    by (simp add: process_batch_def)
qed

subsection \<open>The last-event key is written by nothing before it is read\<close>

lemma last_event_read_clock:
  "read_clock env s = (c, s') \<Longrightarrow> redis s' = redis s"
  by (auto simp: read_clock_def)

lemma last_event_temporal:
  "compute_temporal_features env reg ev v s = (t, s') \<Longrightarrow> redis s' = redis s"
  by (auto simp: compute_temporal_features_def read_clock_def Let_def
           split: prod.splits option.splits)

lemma last_event_activity_window:
  "activity_window env reg u n w s = (r, s') \<Longrightarrow>
   redis s' (''last_event:'' @ x) = redis s (''last_event:'' @ x)"
  by (auto simp: activity_window_def Let_def pbind_def redis_setex_def ret_def
        get_activity_count_from_db_def db_call_fails_def
        split: option.splits prod.splits list.splits bool.splits sum.splits if_splits)

lemma last_event_windows_loop:
  "windows_loop env reg u v ws d s = (r, s') \<Longrightarrow>
   redis s' (''last_event:'' @ x) = redis s (''last_event:'' @ x)"
proof (induction ws arbitrary: d s)
  case Nil
  then show ?case by simp
next
  case (Cons w ws)
  obtain n secs where w: "w = (n, secs)" by (cases w)
  show ?case
  proof (cases "should_compute_feature reg n v")
    case False
    with Cons.prems w have "windows_loop env reg u v ws d s = (r, s')" by simp
    then show ?thesis by (rule Cons.IH)
  next
    case True
    obtain ra s1 where a: "activity_window env reg u n secs s = (ra, s1)"
      by (cases "activity_window env reg u n secs s")
    note s1 = last_event_activity_window [OF a, of x]
    show ?thesis
    proof (cases ra)
      case (Inl e)
      with True w a Cons.prems s1 show ?thesis by auto
    next
      case (Inr c)
      with True w a Cons.prems
      have "windows_loop env reg u v ws (AList.update n (PInt c) d) s1 = (r, s')" by simp
      from Cons.IH [OF this] s1 show ?thesis by simp
    qed
  qed
qed

lemma last_event_event_type_frequency:
  "event_type_frequency env u et s = (r, s') \<Longrightarrow>
   redis s' (''last_event:'' @ x) = redis s (''last_event:'' @ x)"
  by (auto simp: event_type_frequency_def Let_def pbind_def redis_incr_def redis_expire_def
        split: option.splits prod.splits sum.splits if_splits)

lemma last_event_windowed:
  assumes "compute_windowed_aggregations env reg u et v s = (r, s')"
  shows "redis s' (''last_event:'' @ x) = redis s (''last_event:'' @ x)"
proof -
  obtain r1 s1 where l: "windows_loop env reg u v windows [] s = (r1, s1)"
    by (cases "windows_loop env reg u v windows [] s")
  note a = last_event_windows_loop [OF l, of x]
  show ?thesis
  proof (cases r1)
    case (Inl e)
    with assms l a show ?thesis by (simp add: compute_windowed_aggregations_def pbind_def)
  next
    case (Inr d)
    show ?thesis
    proof (cases "should_compute_feature reg ''event_type_frequency_24h'' v")
      case False
      with assms l a Inr show ?thesis
        by (simp add: compute_windowed_aggregations_def pbind_def ret_def)
    next
      case True
      obtain r2 s2 where e: "event_type_frequency env u et s1 = (r2, s2)"
        by (cases "event_type_frequency env u et s1")
      from assms l Inr True e have "s' = s2"
        by (cases r2) (simp_all add: compute_windowed_aggregations_def pbind_def ret_def)
      with last_event_event_type_frequency [OF e, of x] a show ?thesis by simp
    qed
  qed
qed

lemma redis_get_cong: "redis s' k = redis s k \<Longrightarrow> redis_get s' k = redis_get s k"
  by (simp add: redis_get_def)

text \<open>The head of \<^verbatim>\<open>compute_features\<close>, up to the windowed aggregations.\<close>

lemma compute_features_cases:
  obtains iso1 ts1 s1 iso2 ts2 s3 t s4 where
    "read_clock env s0 = ((iso1, ts1), s1)"
    "read_clock env (s1\<lparr>ab_variant_counter := ab_variant_counter s1
        @ [get_user_variant env reg (get_user_id ev)]\<rparr>) = ((iso2, ts2), s3)"
    "compute_temporal_features env reg ev (get_user_variant env reg (get_user_id ev)) s3 = (t, s4)"
    "redis s4 = redis s0"
proof -
  let ?v = "get_user_variant env reg (get_user_id ev)"
  obtain iso1 ts1 s1 where r1: "read_clock env s0 = ((iso1, ts1), s1)"
    by (metis prod.exhaust)
  let ?s2 = "s1\<lparr>ab_variant_counter := ab_variant_counter s1 @ [?v]\<rparr>"
  obtain iso2 ts2 s3 where r2: "read_clock env ?s2 = ((iso2, ts2), s3)"
    by (metis prod.exhaust)
  obtain t s4 where r3: "compute_temporal_features env reg ev ?v s3 = (t, s4)"
    by (cases "compute_temporal_features env reg ev ?v s3")
  have "redis s4 = redis s0"
    using last_event_read_clock [OF r1] last_event_read_clock [OF r2] last_event_temporal [OF r3]
    by simp
  with r1 r2 r3 show ?thesis by (rule that)
qed

lemma compute_features_chain:
  assumes run: "compute_features env reg ev s0 = (r, s')"
  obtains timestamp computed_at temporal s4 where
    "redis s4 = redis s0"
    "keys temporal \<subseteq> {''hour_of_day'', ''day_of_week'', ''is_weekend''}"
    "pbind (compute_windowed_aggregations env reg (get_user_id ev) (get_event_type ev)
              (get_user_variant env reg (get_user_id ev)))
       (\<lambda>window_features.
          pbind (time_since_last_event env (get_user_id ev) timestamp)
            (\<lambda>seconds.
          pbind (lift (\<lambda>s. session_indicator reg (get_user_variant env reg (get_user_id ev))
                   (AList.update ''seconds_since_last_event'' seconds
                      (dict_update
                        (dict_update
                          (dict_update
                            [(''user_id'', PStr (get_user_id ev)),
                             (''event_type'', PStr (get_event_type ev)),
                             (''timestamp'', PStr timestamp), (''computed_at'', PStr computed_at),
                             (''feature_version'', PStr (reg_version reg)),
                             (''ab_variant'', PStr (get_user_variant env reg (get_user_id ev)))]
                            temporal)
                          (compute_categorical_features reg ev
                             (get_user_variant env reg (get_user_id ev))))
                        window_features))))
            (\<lambda>features3.
          pbind (new_user_indicator env reg (get_user_id ev) timestamp
                   (get_user_variant env reg (get_user_id ev)) features3)
            (\<lambda>features4.
          pbind (lift (\<lambda>s. compute_ratio_features env reg (get_user_id ev) features4
                   (get_user_variant env reg (get_user_id ev)) s))
            (\<lambda>ratio_features.
          pbind (lift (\<lambda>s. compute_engagement_score reg
                   (dict_update features4 ratio_features)
                   (get_user_variant env reg (get_user_id ev))))
            (\<lambda>engagement_score.
          pbind (record_feature_value env reg ''engagement_score'' (PInt engagement_score))
            (\<lambda>u.
          pbind (case map_of
                   (AList.update
                     (if get_user_variant env reg (get_user_id ev) = ''B''
                      then ''engagement_score_v2'' else ''engagement_score'')
                     (PInt engagement_score) (dict_update features4 ratio_features))
                   ''activity_count_1h'' of
                   Some c \<Rightarrow> record_feature_value env reg ''activity_count_1h'' c
                 | None \<Rightarrow> ret ())
            (\<lambda>u. ret (AList.update ''raw_event'' (PEvent ev)
                   (AList.update
                     (if get_user_variant env reg (get_user_id ev) = ''B''
                      then ''engagement_score_v2'' else ''engagement_score'')
                     (PInt engagement_score) (dict_update features4 ratio_features)))))))))))
       s4 = (r, s')"
proof -
  let ?v = "get_user_variant env reg (get_user_id ev)"
  obtain iso1 ts1 s1 iso2 ts2 s3 t s4 where
    r1: "read_clock env s0 = ((iso1, ts1), s1)" and
    r2: "read_clock env (s1\<lparr>ab_variant_counter := ab_variant_counter s1 @ [?v]\<rparr>)
           = ((iso2, ts2), s3)" and
    r3: "compute_temporal_features env reg ev ?v s3 = (t, s4)" and
    r4: "redis s4 = redis s0"
    by (rule compute_features_cases)
  have kt: "keys t \<subseteq> {''hour_of_day'', ''day_of_week'', ''is_weekend''}"
  proof
    fix x assume "x \<in> keys t"
    from keys_temporal [OF r3 this]
    show "x \<in> {''hour_of_day'', ''day_of_week'', ''is_weekend''}" by (rule conjunct1)
  qed
  from run show ?thesis
    unfolding compute_features_def Let_def r1 r2 r3 prod.case
    by (rule that [OF r4 kt])
qed


lemma time_since_value:
  assumes "time_since_last_event env u ts s = (Inr seconds, s')"
  shows "seconds =
     (case redis_get s (''last_event:'' @ u) of
        None \<Rightarrow> PNone
      | Some l \<Rightarrow>
          (case fromisoformat env l of
             None \<Rightarrow> PNone
           | Some last_time \<Rightarrow>
               (case fromisoformat env (replace_Z ts) of
                  None \<Rightarrow> PNone
                | Some cur \<Rightarrow>
                    (case dt_sub cur last_time of
                       Inl e \<Rightarrow> PNone
                     | Inr d \<Rightarrow> PFloat (total_seconds d)))))"
  using assms
  by (auto simp: time_since_last_event_def Let_def pbind_def redis_setex_def ret_def)

text \<open>What a returned record went through, from the windowed aggregations on.\<close>

lemma compute_features_Inr_stages:
  assumes run: "compute_features env reg ev s0 = (Inr f, s')"
  obtains timestamp d2 win sw seconds sl f3 f4 sn rf es where
    "redis sw (''last_event:'' @ get_user_id ev) = redis s0 (''last_event:'' @ get_user_id ev)"
    "map_of d2 ''timestamp'' = Some (PStr timestamp)"
    "keys d2 \<subseteq> set identity_keys \<union> {''hour_of_day'', ''day_of_week'', ''is_weekend''}
        \<union> (\<lambda>n. ''event_type_'' @ n) ` set event_types
        \<union> (\<lambda>n. ''device_type_'' @ n) ` set device_types"
    "keys win \<subseteq> {''activity_count_1h'', ''activity_count_6h'', ''activity_count_24h'',
               ''activity_count_7d'', ''event_type_frequency_24h''}"
    "time_since_last_event env (get_user_id ev) timestamp sw = (Inr seconds, sl)"
    "session_indicator reg (get_user_variant env reg (get_user_id ev))
       (AList.update ''seconds_since_last_event'' seconds (dict_update d2 win)) = Inr f3"
    "new_user_indicator env reg (get_user_id ev) timestamp
       (get_user_variant env reg (get_user_id ev)) f3 sl = (Inr f4, sn)"
    "compute_ratio_features env reg (get_user_id ev) f4
       (get_user_variant env reg (get_user_id ev)) sn = Inr rf"
    "compute_engagement_score reg (dict_update f4 rf)
       (get_user_variant env reg (get_user_id ev)) = Inr es"
    "f = AList.update ''raw_event'' (PEvent ev)
           (AList.update
              (if get_user_variant env reg (get_user_id ev) = ''B''
               then ''engagement_score_v2'' else ''engagement_score'')
              (PInt es) (dict_update f4 rf))"
proof -
  let ?v = "get_user_variant env reg (get_user_id ev)"
  from run obtain timestamp computed_at temporal s4 where
    r4: "redis s4 = redis s0" and
    kt: "keys temporal \<subseteq> {''hour_of_day'', ''day_of_week'', ''is_weekend''}" and
    chain: "pbind (compute_windowed_aggregations env reg (get_user_id ev) (get_event_type ev) ?v)
       (\<lambda>window_features.
          pbind (time_since_last_event env (get_user_id ev) timestamp)
            (\<lambda>seconds.
          pbind (lift (\<lambda>s. session_indicator reg ?v
                   (AList.update ''seconds_since_last_event'' seconds
                      (dict_update
                        (dict_update
                          (dict_update
                            [(''user_id'', PStr (get_user_id ev)),
                             (''event_type'', PStr (get_event_type ev)),
                             (''timestamp'', PStr timestamp), (''computed_at'', PStr computed_at),
                             (''feature_version'', PStr (reg_version reg)),
                             (''ab_variant'', PStr ?v)]
                            temporal)
                          (compute_categorical_features reg ev ?v))
                        window_features))))
            (\<lambda>features3.
          pbind (new_user_indicator env reg (get_user_id ev) timestamp ?v features3)
            (\<lambda>features4.
          pbind (lift (\<lambda>s. compute_ratio_features env reg (get_user_id ev) features4 ?v s))
            (\<lambda>ratio_features.
          pbind (lift (\<lambda>s. compute_engagement_score reg
                   (dict_update features4 ratio_features) ?v))
            (\<lambda>engagement_score.
          pbind (record_feature_value env reg ''engagement_score'' (PInt engagement_score))
            (\<lambda>u.
          pbind (case map_of
                   (AList.update
                     (if ?v = ''B'' then ''engagement_score_v2'' else ''engagement_score'')
                     (PInt engagement_score) (dict_update features4 ratio_features))
                   ''activity_count_1h'' of
                   Some c \<Rightarrow> record_feature_value env reg ''activity_count_1h'' c
                 | None \<Rightarrow> ret ())
            (\<lambda>u. ret (AList.update ''raw_event'' (PEvent ev)
                   (AList.update
                     (if ?v = ''B'' then ''engagement_score_v2'' else ''engagement_score'')
                     (PInt engagement_score) (dict_update features4 ratio_features)))))))))))
       s4 = (Inr f, s')"
    by (rule compute_features_chain)
  let ?d2 = "dict_update
               (dict_update
                  [(''user_id'', PStr (get_user_id ev)),
                   (''event_type'', PStr (get_event_type ev)),
                   (''timestamp'', PStr timestamp), (''computed_at'', PStr computed_at),
                   (''feature_version'', PStr (reg_version reg)),
                   (''ab_variant'', PStr ?v)]
                  temporal)
               (compute_categorical_features reg ev ?v)"
  from chain obtain win sw seconds sl f3 f4 sn rf es where
    w: "compute_windowed_aggregations env reg (get_user_id ev) (get_event_type ev) ?v s4
          = (Inr win, sw)" and
    ts: "time_since_last_event env (get_user_id ev) timestamp sw = (Inr seconds, sl)" and
    si: "session_indicator reg ?v
           (AList.update ''seconds_since_last_event'' seconds (dict_update ?d2 win)) = Inr f3" and
    nu: "new_user_indicator env reg (get_user_id ev) timestamp ?v f3 sl = (Inr f4, sn)" and
    ra: "compute_ratio_features env reg (get_user_id ev) f4 ?v sn = Inr rf" and
    en: "compute_engagement_score reg (dict_update f4 rf) ?v = Inr es" and
    f: "f = AList.update ''raw_event'' (PEvent ev)
           (AList.update (if ?v = ''B'' then ''engagement_score_v2'' else ''engagement_score'')
              (PInt es) (dict_update f4 rf))"
    by (auto simp: pbind_Inr lift_Inr ret_eq)
  have le: "redis sw (''last_event:'' @ get_user_id ev) = redis s0 (''last_event:'' @ get_user_id ev)"
    using last_event_windowed [OF w] r4 by simp
  have kc: "keys (compute_categorical_features reg ev ?v)
              \<subseteq> (\<lambda>n. ''event_type_'' @ n) ` set event_types
                \<union> (\<lambda>n. ''device_type_'' @ n) ` set device_types"
  proof
    fix x assume "x \<in> keys (compute_categorical_features reg ev ?v)"
    from keys_categorical [OF this]
    show "x \<in> (\<lambda>n. ''event_type_'' @ n) ` set event_types
                \<union> (\<lambda>n. ''device_type_'' @ n) ` set device_types"
      by (elim disjE conjE) simp_all
  qed
  have k2: "keys ?d2 \<subseteq> set identity_keys \<union> {''hour_of_day'', ''day_of_week'', ''is_weekend''}
        \<union> (\<lambda>n. ''event_type_'' @ n) ` set event_types
        \<union> (\<lambda>n. ''device_type_'' @ n) ` set device_types"
    using kt kc by (auto simp: identity_keys_def)
  have "''timestamp'' \<notin> keys temporal" using kt by auto
  moreover have "''timestamp'' \<notin> keys (compute_categorical_features reg ev ?v)"
    using kc by (auto simp: event_types_def device_types_def)
  ultimately have m2: "map_of ?d2 ''timestamp'' = Some (PStr timestamp)"
    by (simp add: map_of_dict_update_other)
  have kw: "keys win \<subseteq> {''activity_count_1h'', ''activity_count_6h'', ''activity_count_24h'',
               ''activity_count_7d'', ''event_type_frequency_24h''}"
  proof
    fix x assume "x \<in> keys win"
    from keys_windowed [OF w this]
    show "x \<in> {''activity_count_1h'', ''activity_count_6h'', ''activity_count_24h'',
               ''activity_count_7d'', ''event_type_frequency_24h''}" by (rule conjunct1)
  qed
  from le m2 k2 kw ts si nu ra en f show ?thesis by (rule that)
qed

lemma session_indicator_None:
  assumes "should_compute_feature reg ''is_active_session'' v"
  shows "session_indicator reg v (AList.update ''seconds_since_last_event'' PNone d) = Inl TypeError"
  using assms
  by (simp add: session_indicator_def dget_def update_conv' py_lt_def ebind_def)

subsection \<open>The first event of a user\<close>

text \<open>
  C1. The claim is that an event whose user has no stored last-event time gets
  \<^verbatim>\<open>is_active_session = true\<close>. The code does something else: whenever the cache holds no
  (non-empty) last-event time for the user and \<^verbatim>\<open>is_active_session\<close> is active for the
  user's variant, \<^verbatim>\<open>compute_features\<close> raises, for every environment, registry, event and
  state. The stored value is \<^verbatim>\<open>None\<close>, the key is present, so the default \<^verbatim>\<open>1800\<close> of
  \<^verbatim>\<open>.get\<close> is not used, and \<^verbatim>\<open>None < 1800\<close> is a \<^verbatim>\<open>TypeError\<close>.
\<close>

theorem first_event_raises:
  assumes absent: "redis_get s (''last_event:'' @ get_user_id ev) = None"
    and active: "should_compute_feature reg ''is_active_session''
                   (get_user_variant env reg (get_user_id ev))"
  shows "\<exists>e. fst (compute_features env reg ev s) = Inl e"
proof (cases "fst (compute_features env reg ev s)")
  case (Inl e)
  then show ?thesis by blast
next
  case (Inr f)
  then have run: "compute_features env reg ev s = (Inr f, snd (compute_features env reg ev s))"
    by (metis prod.collapse)
  from run obtain timestamp d2 win sw seconds sl f3 where
    le: "redis sw (''last_event:'' @ get_user_id ev) = redis s (''last_event:'' @ get_user_id ev)" and
    ts: "time_since_last_event env (get_user_id ev) timestamp sw = (Inr seconds, sl)" and
    si: "session_indicator reg (get_user_variant env reg (get_user_id ev))
           (AList.update ''seconds_since_last_event'' seconds (dict_update d2 win)) = Inr f3"
    by (rule compute_features_Inr_stages)
  from le absent have "redis_get sw (''last_event:'' @ get_user_id ev) = None"
    by (simp add: redis_get_def)
  with time_since_value [OF ts] have "seconds = PNone" by simp
  with si session_indicator_None [OF active] show ?thesis by simp
qed


lemma map_of_record_other:
  assumes "k \<noteq> ''raw_event''" "k \<noteq> ''engagement_score''" "k \<noteq> ''engagement_score_v2''"
    "k \<notin> keys rf"
  shows "map_of (AList.update ''raw_event'' e
           (AList.update (if v = ''B'' then ''engagement_score_v2'' else ''engagement_score'')
              x (dict_update f4 rf))) k = map_of f4 k"
  using assms by (simp add: update_conv' map_of_dict_update_other)

lemma ratio_keys_subset:
  assumes "compute_ratio_features env reg u d v s = Inr rf"
  shows "keys rf \<subseteq> {''activity_trend'', ''purchase_rate_24h''}"
proof
  fix x assume "x \<in> keys rf"
  from ratio_features_keys [OF assms this]
  show "x \<in> {''activity_trend'', ''purchase_rate_24h''}" by (rule conjunct1)
qed

subsection \<open>Seconds since the last event\<close>

text \<open>
  C4, as amended. In a record that \<^verbatim>\<open>compute_features\<close> returns,
  \<^verbatim>\<open>seconds_since_last_event\<close> is \<^verbatim>\<open>None\<close>, or it is the difference in seconds between the
  record's timestamp and the last-event time that the cache held when the event arrived.
  The difference is signed: it is negative exactly when the event's timestamp is earlier
  than the stored time.
\<close>

theorem seconds_since_last_event_signed:
  assumes run: "compute_features env reg ev s = (Inr f, s')"
  shows "\<exists>ts. map_of f ''timestamp'' = Some (PStr ts)
     \<and> (map_of f ''seconds_since_last_event'' = Some PNone
        \<or> (\<exists>l last_time cur d.
              redis_get s (''last_event:'' @ get_user_id ev) = Some l
            \<and> fromisoformat env l = Some last_time
            \<and> fromisoformat env (replace_Z ts) = Some cur
            \<and> dt_sub cur last_time = Inr d
            \<and> map_of f ''seconds_since_last_event'' = Some (PFloat (real_of_int d / 1000000))
            \<and> (real_of_int d / 1000000 < 0 \<longleftrightarrow> d < 0)))"
proof -
  let ?v = "get_user_variant env reg (get_user_id ev)"
  from run obtain timestamp d2 win sw seconds sl f3 f4 sn rf es where
    le: "redis sw (''last_event:'' @ get_user_id ev) = redis s (''last_event:'' @ get_user_id ev)" and
    m2: "map_of d2 ''timestamp'' = Some (PStr timestamp)" and
    kw: "keys win \<subseteq> {''activity_count_1h'', ''activity_count_6h'', ''activity_count_24h'',
               ''activity_count_7d'', ''event_type_frequency_24h''}" and
    ts: "time_since_last_event env (get_user_id ev) timestamp sw = (Inr seconds, sl)" and
    si: "session_indicator reg ?v
           (AList.update ''seconds_since_last_event'' seconds (dict_update d2 win)) = Inr f3" and
    nu: "new_user_indicator env reg (get_user_id ev) timestamp ?v f3 sl = (Inr f4, sn)" and
    ra: "compute_ratio_features env reg (get_user_id ev) f4 ?v sn = Inr rf" and
    f: "f = AList.update ''raw_event'' (PEvent ev)
           (AList.update (if ?v = ''B'' then ''engagement_score_v2'' else ''engagement_score'')
              (PInt es) (dict_update f4 rf))"
    by (rule compute_features_Inr_stages)
  note kr = ratio_keys_subset [OF ra]
  have "''timestamp'' \<notin> keys win" using kw by auto
  then have a3: "map_of f3 ''timestamp'' = Some (PStr timestamp)"
    using session_indicator_keys(2) [OF si, of "''timestamp''"] m2
    by (simp add: update_conv' map_of_dict_update_other)
  have a4: "map_of f4 ''timestamp'' = Some (PStr timestamp)"
    using new_user_indicator_keys(2) [OF nu, of "''timestamp''"] a3 by simp
  have "''timestamp'' \<notin> keys rf" using kr by auto
  then have tf: "map_of f ''timestamp'' = Some (PStr timestamp)"
    unfolding f using a4 by (simp add: map_of_record_other)
  have b3: "map_of f3 ''seconds_since_last_event'' = Some seconds"
    using session_indicator_keys(2) [OF si, of "''seconds_since_last_event''"]
    by (simp add: update_conv')
  have b4: "map_of f4 ''seconds_since_last_event'' = Some seconds"
    using new_user_indicator_keys(2) [OF nu, of "''seconds_since_last_event''"] b3 by simp
  have "''seconds_since_last_event'' \<notin> keys rf" using kr by auto
  then have sf: "map_of f ''seconds_since_last_event'' = Some seconds"
    unfolding f using b4 by (simp add: map_of_record_other)
  from le have g: "redis_get sw (''last_event:'' @ get_user_id ev)
                     = redis_get s (''last_event:'' @ get_user_id ev)"
    by (rule redis_get_cong)
  have "seconds = PNone
        \<or> (\<exists>l last_time cur d.
              redis_get s (''last_event:'' @ get_user_id ev) = Some l
            \<and> fromisoformat env l = Some last_time
            \<and> fromisoformat env (replace_Z timestamp) = Some cur
            \<and> dt_sub cur last_time = Inr d
            \<and> seconds = PFloat (real_of_int d / 1000000))"
    using time_since_value [OF ts] unfolding g
    by (auto simp: total_seconds_def split: option.splits sum.splits)
  with tf sf show ?thesis by auto
qed


subsection \<open>Engagement score and activity trend\<close>

lemma map_of_dict_update_distinct:
  "distinct (map fst other) \<Longrightarrow>
   map_of (dict_update d other) k = (case map_of other k of Some v \<Rightarrow> Some v | None \<Rightarrow> map_of d k)"
  unfolding dict_update_def
proof (induction other arbitrary: d)
  case Nil
  show ?case by simp
next
  case (Cons kv other)
  obtain a b where kv: "kv = (a, b)" by (cases kv)
  from Cons.prems kv have d: "distinct (map fst other)" and a: "map_of other a = None"
    by (auto simp: map_of_eq_None_iff)
  show ?case
    using Cons.IH [OF d, of "AList.update a b d"] kv a
    by (auto simp: update_conv' split: option.splits)
qed

lemma tier_nonneg:
  assumes "tier x cs other = Inr p"
    and "\<And>c q. (c, q) \<in> set cs \<Longrightarrow> 0 \<le> q"
    and "\<And>q. other = Inr q \<Longrightarrow> 0 \<le> q"
  shows "0 \<le> p"
  using assms
proof (induction cs)
  case Nil
  then show ?case by simp
next
  case (Cons cq cs)
  obtain c q where cq: "cq = (c, q)" by (cases cq)
  show ?case
  proof (cases "py_gt x c")
    case (Inl e)
    with Cons.prems(1) cq show ?thesis by simp
  next
    case (Inr b)
    show ?thesis
    proof (cases b)
      case True
      with Inr Cons.prems(1) cq have "p = q" by simp
      with Cons.prems(2) [of c q] cq show ?thesis by simp
    next
      case False
      with Inr Cons.prems(1) cq have "tier x cs other = Inr p" by simp
      then show ?thesis
        using Cons.prems(2,3) by (intro Cons.IH) auto
    qed
  qed
qed

lemma session_points_nonneg: "0 \<le> session_points d"
  by (simp add: session_points_def)

lemma engagement_bounds:
  assumes "compute_engagement_score reg d v = Inr e"
  shows "0 \<le> e \<and> e \<le> 100"
proof (cases "v = ''B'' \<and> should_compute_feature reg ''engagement_score_v2'' v")
  case True
  with assms have "engagement_v2 d = Inr e" by (auto simp: compute_engagement_score_def)
  then obtain a t p where
    a: "tier (dget d ''activity_count_24h'' (PInt 0)) [(20, 40), (10, 30), (5, 20)]
          (tier (dget d ''activity_count_1h'' (PInt 0)) [(0, 10)] (Inr 0)) = Inr a" and
    t: "tier (dget d ''activity_trend'' (PInt 0)) [(0.5, 20), (0.2, 10)] (Inr 0) = Inr t" and
    p: "tier (dget d ''purchase_rate_24h'' (PInt 0)) [(0.1, 20), (0.05, 10)] (Inr 0) = Inr p" and
    e: "e = min (a + session_points d + t + p) 100"
    by (auto simp: engagement_v2_def Let_def ebind_Inr)
  have inner: "\<And>q. tier (dget d ''activity_count_1h'' (PInt 0)) [(0, 10)] (Inr 0) = Inr q
                 \<Longrightarrow> 0 \<le> q"
    by (erule tier_nonneg) auto
  have "0 \<le> a"
  proof (rule tier_nonneg [OF a])
    fix c q :: int and c' :: real
    assume "(c', q) \<in> set [(20, 40), (10, 30), (5, 20)]"
    then show "0 \<le> q" by auto
  next
    fix q
    assume "tier (dget d ''activity_count_1h'' (PInt 0)) [(0, 10)] (Inr 0) = Inr q"
    then show "0 \<le> q" by (rule inner)
  qed
  moreover have "0 \<le> t" using t by (rule tier_nonneg) auto
  moreover have "0 \<le> p" using p by (rule tier_nonneg) auto
  ultimately show ?thesis using e session_points_nonneg [of d] by simp
next
  case False
  with assms have "engagement_v1 d = Inr e" by (auto simp: compute_engagement_score_def)
  then obtain a q where
    a: "tier (dget d ''activity_count_1h'' (PInt 0)) [(5, 30), (2, 15)] (Inr 0) = Inr a" and
    q: "tier (dget d ''event_type_frequency_24h'' (PInt 0)) [(10, 50)] (Inr 0) = Inr q" and
    e: "e = min (a + session_points d + q) 100"
    by (auto simp: engagement_v1_def ebind_Inr)
  have "0 \<le> a" using a by (rule tier_nonneg) auto
  moreover have "0 \<le> q" using q by (rule tier_nonneg) auto
  ultimately show ?thesis using e session_points_nonneg [of d] by simp
qed

lemma ratio_features_trend:
  assumes "compute_ratio_features env reg u d v s = Inr rf"
  shows "distinct (map fst rf)"
    and "map_of rf ''activity_trend'' = Some x \<Longrightarrow> \<exists>t. activity_trend d = Inr t \<and> x = PFloat t"
  using assms
  by (auto simp: compute_ratio_features_def ebind_Inr split: if_splits)

lemma activity_trend_value:
  assumes "activity_trend d = Inr t"
  shows "\<exists>c1 c24. py_num (dget d ''activity_count_1h'' (PInt 0)) = Some c1
           \<and> py_num (dget d ''activity_count_24h'' (PInt 1)) = Some c24
           \<and> t = c1 / max c24 1"
  using assms
  by (auto simp: activity_trend_def Let_def ebind_Inr py_max1_def py_truediv_def
           split: option.splits if_splits)

text \<open>
  C5, as amended. In a record that \<^verbatim>\<open>compute_features\<close> returns, the engagement score
  (under \<^verbatim>\<open>engagement_score_v2\<close> for variant \<open>B\<close>, under \<^verbatim>\<open>engagement_score\<close> otherwise) is
  an integer in \<open>[0, 100]\<close>. \<^verbatim>\<open>activity_trend\<close>, when present, is the quotient of the
  record's \<^verbatim>\<open>activity_count_1h\<close> (default 0) by the maximum of its
  \<^verbatim>\<open>activity_count_24h\<close> (default 1) and 1; it is non-negative exactly when the one-hour
  count is, and at most 1 exactly when the one-hour count does not exceed that maximum.
\<close>

theorem engagement_and_trend_range:
  assumes run: "compute_features env reg ev s = (Inr f, s')"
  shows "(\<exists>e. map_of f (if get_user_variant env reg (get_user_id ev) = ''B''
                       then ''engagement_score_v2'' else ''engagement_score'') = Some (PInt e)
              \<and> 0 \<le> e \<and> e \<le> 100)
       \<and> (map_of f ''activity_trend'' = None
          \<or> (\<exists>c1 c24.
                py_num (dget f ''activity_count_1h'' (PInt 0)) = Some c1
              \<and> py_num (dget f ''activity_count_24h'' (PInt 1)) = Some c24
              \<and> map_of f ''activity_trend'' = Some (PFloat (c1 / max c24 1))
              \<and> (0 \<le> c1 / max c24 1 \<longleftrightarrow> 0 \<le> c1)
              \<and> (c1 / max c24 1 \<le> 1 \<longleftrightarrow> c1 \<le> max c24 1)))"
proof -
  let ?v = "get_user_variant env reg (get_user_id ev)"
  let ?ek = "if ?v = ''B'' then ''engagement_score_v2'' else ''engagement_score''"
  from run obtain timestamp d2 win sw seconds sl f3 f4 sn rf es where
    k2: "keys d2 \<subseteq> set identity_keys \<union> {''hour_of_day'', ''day_of_week'', ''is_weekend''}
        \<union> (\<lambda>n. ''event_type_'' @ n) ` set event_types
        \<union> (\<lambda>n. ''device_type_'' @ n) ` set device_types" and
    kw: "keys win \<subseteq> {''activity_count_1h'', ''activity_count_6h'', ''activity_count_24h'',
               ''activity_count_7d'', ''event_type_frequency_24h''}" and
    si: "session_indicator reg ?v
           (AList.update ''seconds_since_last_event'' seconds (dict_update d2 win)) = Inr f3" and
    nu: "new_user_indicator env reg (get_user_id ev) timestamp ?v f3 sl = (Inr f4, sn)" and
    ra: "compute_ratio_features env reg (get_user_id ev) f4 ?v sn = Inr rf" and
    en: "compute_engagement_score reg (dict_update f4 rf) ?v = Inr es" and
    f: "f = AList.update ''raw_event'' (PEvent ev) (AList.update ?ek (PInt es) (dict_update f4 rf))"
    by (rule compute_features_Inr_stages)
  note kr = ratio_keys_subset [OF ra]
  have score: "map_of f ?ek = Some (PInt es)"
    unfolding f by (simp add: update_conv')
  note bounds = engagement_bounds [OF en]
  have n2: "''activity_trend'' \<notin> keys d2"
    using k2 by (auto simp: identity_keys_def event_types_def device_types_def)
  have nw: "''activity_trend'' \<notin> keys win" using kw by auto
  have n3: "''activity_trend'' \<notin> keys f3"
    using session_indicator_keys(1) [OF si] n2 nw by auto
  have n4: "''activity_trend'' \<notin> keys f4"
    using new_user_indicator_keys(1) [OF nu] n3 by auto
  have "map_of (dict_update f4 rf) ''activity_trend''
          = (case map_of rf ''activity_trend'' of Some v \<Rightarrow> Some v
             | None \<Rightarrow> map_of f4 ''activity_trend'')"
    by (rule map_of_dict_update_distinct [OF ratio_features_trend(1) [OF ra]])
  moreover have "map_of f4 ''activity_trend'' = None"
    using n4 by (simp add: map_of_eq_None_keys)
  ultimately have "map_of (dict_update f4 rf) ''activity_trend'' = map_of rf ''activity_trend''"
    by (simp split: option.splits)
  then have tf: "map_of f ''activity_trend'' = map_of rf ''activity_trend''"
    unfolding f by (simp add: update_conv')
  have c1: "dget f ''activity_count_1h'' (PInt 0) = dget f4 ''activity_count_1h'' (PInt 0)"
    unfolding f dget_def using kr by (subst map_of_record_other) auto
  have c24: "dget f ''activity_count_24h'' (PInt 1) = dget f4 ''activity_count_24h'' (PInt 1)"
    unfolding f dget_def using kr by (subst map_of_record_other) auto
  have trend: "map_of f ''activity_trend'' = None
          \<or> (\<exists>c1 c24.
                py_num (dget f ''activity_count_1h'' (PInt 0)) = Some c1
              \<and> py_num (dget f ''activity_count_24h'' (PInt 1)) = Some c24
              \<and> map_of f ''activity_trend'' = Some (PFloat (c1 / max c24 1))
              \<and> (0 \<le> c1 / max c24 1 \<longleftrightarrow> 0 \<le> c1)
              \<and> (c1 / max c24 1 \<le> 1 \<longleftrightarrow> c1 \<le> max c24 1))"
  proof (cases "map_of rf ''activity_trend''")
    case None
    with tf show ?thesis by simp
  next
    case (Some x)
    from ratio_features_trend(2) [OF ra Some] obtain t where
      t: "activity_trend f4 = Inr t" and x: "x = PFloat t" by blast
    from activity_trend_value [OF t] obtain a b where
      a: "py_num (dget f4 ''activity_count_1h'' (PInt 0)) = Some a" and
      b: "py_num (dget f4 ''activity_count_24h'' (PInt 1)) = Some b" and
      tv: "t = a / max b 1" by blast
    have pos: "0 < max b 1" by simp
    have "(0 \<le> a / max b 1 \<longleftrightarrow> 0 \<le> a)" using pos by (simp add: zero_le_divide_iff)
    moreover have "(a / max b 1 \<le> 1 \<longleftrightarrow> a \<le> max b 1)" using pos by (simp add: divide_le_eq_1)
    ultimately show ?thesis using tf Some x tv a b c1 c24 by auto
  qed
  from score bounds trend show ?thesis by blast
qed

subsection \<open>Variant assignment\<close>

lemma variant_walk_spec:
  "spec_walk b c tbl = Some i \<Longrightarrow> variant_walk b c (map variant_of_row tbl) = i"
proof (induction tbl arbitrary: c)
  case Nil
  then show ?case by simp
next
  case (Cons row tbl)
  obtain j p fv where row: "row = (j, p, fv)" by (cases row)
  show ?case
  proof (cases "b < c + p")
    case True
    with Cons.prems row show ?thesis by simp
  next
    case False
    with Cons.prems row have "spec_walk b (c + p) tbl = Some i" by simp
    then have "variant_walk b (c + p) (map variant_of_row tbl) = i" by (rule Cons.IH)
    with False row show ?thesis by simp
  qed
qed

lemma spec_walk_total:
  "\<not> b < c \<Longrightarrow> b < c + sum_list (map (\<lambda>r. fst (snd r)) tbl) \<Longrightarrow>
   \<exists>i. spec_walk b c tbl = Some i"
proof (induction tbl arbitrary: c)
  case Nil
  then show ?case by simp
next
  case (Cons row tbl)
  obtain j p fv where row: "row = (j, p, fv)" by (cases row)
  show ?case
  proof (cases "b < c + p")
    case True
    with row show ?thesis by simp
  next
    case False
    moreover from Cons.prems(2) row
    have "b < (c + p) + sum_list (map (\<lambda>r. fst (snd r)) tbl)" by (simp add: add.assoc)
    ultimately have "\<exists>i. spec_walk b (c + p) tbl = Some i" by (rule Cons.IH)
    with False row show ?thesis by simp
  qed
qed

text \<open>
  C7, as amended. The variant is a function of the digest and the table. With A/B testing
  enabled and a table (every entry with id, percentage and version) whose percentages sum
  to at least 100, \<^verbatim>\<open>get_user_variant\<close> returns what the specification's algorithm
  returns: the first id, in list order, whose cumulative percentage strictly exceeds
  \<open>digest mod 100\<close>. With A/B testing disabled it returns the constant \<^verbatim>\<open>'A'\<close>, whatever
  the table holds.
\<close>

theorem get_user_variant_spec:
  assumes tbl: "ab_variants reg = map variant_of_row tbl"
  shows "(ab_enabled reg \<and> 100 \<le> sum_list (map (\<lambda>r. fst (snd r)) tbl) \<longrightarrow>
            spec_variant True (md5_int env user_id) tbl
              = Some (get_user_variant env reg user_id))
         \<and> (\<not> ab_enabled reg \<longrightarrow> get_user_variant env reg user_id = ''A'')"
proof (intro conjI impI)
  assume en: "ab_enabled reg \<and> 100 \<le> sum_list (map (\<lambda>r. fst (snd r)) tbl)"
  let ?b = "int (md5_int env user_id) mod 100"
  have "?b < 100" by simp
  with en have "?b < 0 + sum_list (map (\<lambda>r. fst (snd r)) tbl)" by linarith
  moreover have "\<not> ?b < 0" by simp
  ultimately obtain i where i: "spec_walk ?b 0 tbl = Some i"
    using spec_walk_total by blast
  then have "variant_walk ?b 0 (map variant_of_row tbl) = i" by (rule variant_walk_spec)
  with i en tbl
  show "spec_variant True (md5_int env user_id) tbl = Some (get_user_variant env reg user_id)"
    by (simp add: spec_variant_def get_user_variant_def)
next
  assume "\<not> ab_enabled reg"
  then show "get_user_variant env reg user_id = ''A''" by (simp add: get_user_variant_def)
qed

theorem get_user_variant_spec_witness:
  "spec_variant True (md5_int py_env ''user_0'') [(''A'', 50, ''v1''), (''B'', 50, ''v2'')]
     = Some ''B''
   \<and> get_user_variant py_env ab_registry ''user_0'' = ''B''
   \<and> get_user_variant py_env control_registry ''user_0'' = ''A''"
proof -
  have tbl: "ab_variants ab_registry
               = map variant_of_row [(''A'', 50, ''v1''), (''B'', 50, ''v2'')]"
    by (simp add: ab_registry_def plain_registry_def)
  have tbl2: "ab_variants control_registry = map variant_of_row [(''control'', 100, ''v1'')]"
    by (simp add: control_registry_def plain_registry_def)
  have b: "get_user_variant py_env ab_registry ''user_0'' = ''B''"
    by (simp add: get_user_variant_def ab_registry_def plain_registry_def
        py_env_def md5_known_def)
  from get_user_variant_spec [OF tbl, of py_env "''user_0''"]
       get_user_variant_spec [OF tbl2, of py_env "''user_0''"] b
  show ?thesis by (simp add: ab_registry_def control_registry_def plain_registry_def)
qed

text \<open>C7 as stated fails with A/B testing disabled: the specification's answer is the
  first id of the table, \<open>control\<close>; the code answers \<^verbatim>\<open>'A'\<close>.\<close>

theorem disabled_variant_counterexample:
  "spec_variant (ab_enabled control_registry) (md5_int py_env ''user_0'')
       [(''control'', 100, ''v1'')] = Some ''control''
   \<and> ab_variants control_registry = map variant_of_row [(''control'', 100, ''v1'')]
   \<and> get_user_variant py_env control_registry ''user_0'' = ''A''"
  by (simp add: spec_variant_def get_user_variant_def control_registry_def plain_registry_def)

subsection \<open>Gating of the output keys\<close>

text \<open>
  C6, as amended. Every key of a record that \<^verbatim>\<open>compute_features\<close> returns is an identity
  field, or one of \<^verbatim>\<open>seconds_since_last_event\<close>, \<^verbatim>\<open>engagement_score\<close> and
  \<^verbatim>\<open>engagement_score_v2\<close>, which are written whatever the registry says, or a key whose
  gate (the group name \<^verbatim>\<open>event_type_encoded\<close> or \<^verbatim>\<open>device_type_encoded\<close> for a one-hot
  key, the key itself otherwise) \<^verbatim>\<open>should_compute_feature\<close> holds for with the user's
  variant.
\<close>

theorem compute_features_keys:
  assumes run: "compute_features env reg ev s = (Inr f, s')" and k: "k \<in> keys f"
  shows "k \<in> set identity_keys \<or> k \<in> set ungated_keys
         \<or> should_compute_feature reg (gate_of k) (get_user_variant env reg (get_user_id ev))"
proof -
  let ?v = "get_user_variant env reg (get_user_id ev)"
  let ?G = "{k. should_compute_feature reg (gate_of k) ?v}"
  from run obtain timestamp computed_at s3 temporal s4 win sw seconds sl f3 f4 sn rf es where
    t: "compute_temporal_features env reg ev ?v s3 = (temporal, s4)" and
    w: "compute_windowed_aggregations env reg (get_user_id ev) (get_event_type ev) ?v s4
          = (Inr win, sw)" and
    si: "session_indicator reg ?v
       (AList.update ''seconds_since_last_event'' seconds
          (dict_update
             (dict_update
                (dict_update
                   [(''user_id'', PStr (get_user_id ev)),
                    (''event_type'', PStr (get_event_type ev)),
                    (''timestamp'', PStr timestamp), (''computed_at'', PStr computed_at),
                    (''feature_version'', PStr (reg_version reg)),
                    (''ab_variant'', PStr ?v)]
                   temporal)
                (compute_categorical_features reg ev ?v))
             win)) = Inr f3" and
    nu: "new_user_indicator env reg (get_user_id ev) timestamp ?v f3 sl = (Inr f4, sn)" and
    ra: "compute_ratio_features env reg (get_user_id ev) f4 ?v sn = Inr rf" and
    f: "f = AList.update ''raw_event'' (PEvent ev)
           (AList.update (if ?v = ''B'' then ''engagement_score_v2'' else ''engagement_score'')
              (PInt es) (dict_update f4 rf))"
    by (rule compute_features_Inr)
  let ?I = "set identity_keys \<union> set ungated_keys"
  have kt: "keys temporal \<subseteq> ?G"
  proof
    fix x assume "x \<in> keys temporal"
    from keys_temporal [OF t this]
    have a: "x \<in> {''hour_of_day'', ''day_of_week'', ''is_weekend''}"
      and b: "should_compute_feature reg x ?v" by blast+
    from a have "gate_of x = x" by (intro gate_of_plain) auto
    with b show "x \<in> ?G" by simp
  qed
  have kc: "keys (compute_categorical_features reg ev ?v) \<subseteq> ?G"
  proof
    fix x assume "x \<in> keys (compute_categorical_features reg ev ?v)"
    from keys_categorical [OF this] show "x \<in> ?G"
      using gate_of_event_type [of x] gate_of_device_type [of x] by auto
  qed
  have kw: "keys win \<subseteq> ?G"
  proof
    fix x assume "x \<in> keys win"
    from keys_windowed [OF w this]
    have a: "x \<in> {''activity_count_1h'', ''activity_count_6h'', ''activity_count_24h'',
               ''activity_count_7d'', ''event_type_frequency_24h''}"
      and b: "should_compute_feature reg x ?v" by blast+
    from a have "gate_of x = x" by (intro gate_of_plain) auto
    with b show "x \<in> ?G" by simp
  qed
  have g1: "gate_of ''is_active_session'' = ''is_active_session''"
    by (intro gate_of_plain) simp
  have g2: "gate_of ''is_new_user'' = ''is_new_user''"
    by (intro gate_of_plain) simp
  have k2: "keys (AList.update ''seconds_since_last_event'' seconds
          (dict_update
             (dict_update
                (dict_update
                   [(''user_id'', PStr (get_user_id ev)),
                    (''event_type'', PStr (get_event_type ev)),
                    (''timestamp'', PStr timestamp), (''computed_at'', PStr computed_at),
                    (''feature_version'', PStr (reg_version reg)),
                    (''ab_variant'', PStr ?v)]
                   temporal)
                (compute_categorical_features reg ev ?v))
             win)) \<subseteq> ?I \<union> ?G"
    using kt kc kw by (auto simp: identity_keys_def ungated_keys_def)
  have k3: "keys f3 \<subseteq> ?I \<union> ?G"
  proof
    fix x assume "x \<in> keys f3"
    with session_indicator_keys(1) [OF si] k2
    have "x \<in> ?I \<union> ?G \<or> (x = ''is_active_session'' \<and> should_compute_feature reg x ?v)"
      by blast
    with g1 show "x \<in> ?I \<union> ?G" by auto
  qed
  have k4: "keys f4 \<subseteq> ?I \<union> ?G"
  proof
    fix x assume "x \<in> keys f4"
    with new_user_indicator_keys(1) [OF nu] k3
    have "x \<in> ?I \<union> ?G \<or> (x = ''is_new_user'' \<and> should_compute_feature reg x ?v)"
      by blast
    with g2 show "x \<in> ?I \<union> ?G" by auto
  qed
  have kr: "keys rf \<subseteq> ?G"
  proof
    fix x assume "x \<in> keys rf"
    from ratio_features_keys [OF ra this]
    have a: "x \<in> {''activity_trend'', ''purchase_rate_24h''}"
      and b: "should_compute_feature reg x ?v" by blast+
    from a have "gate_of x = x" by (intro gate_of_plain) auto
    with b show "x \<in> ?G" by simp
  qed
  from f have "keys f \<subseteq> ?I \<union> keys f4 \<union> keys rf"
    by (auto simp: identity_keys_def ungated_keys_def)
  with k4 kr k show ?thesis by auto
qed

subsection \<open>The feature store\<close>

lemma feature_inserts_loop_rows:
  "feature_inserts_loop f items = Inr rows \<Longrightarrow>
   map (\<lambda>r. (row_feature_name r, row_feature_value r)) rows
     = filter (\<lambda>kv. fst kv \<notin> set identity_keys \<and> snd kv \<noteq> PNone) items"
proof (induction items arbitrary: rows)
  case Nil
  then show ?case by simp
next
  case (Cons kv items)
  obtain k v where kv: "kv = (k, v)" by (cases kv)
  show ?case
  proof (cases "k \<in> set identity_keys \<or> v = PNone")
    case True
    with Cons.prems kv have "feature_inserts_loop f items = Inr rows"
      by (auto split: if_splits)
    from Cons.IH [OF this] True kv show ?thesis by auto
  next
    case False
    with Cons.prems kv obtain uid ca rest where
      rest: "feature_inserts_loop f items = Inr rest" and
      rows: "rows = \<lparr>row_user_id = uid, row_feature_name = k, row_feature_value = v,
                      row_computed_at = ca,
                      row_feature_version = dget f ''feature_version'' (PStr ''v1''),
                      row_ab_variant = dget f ''ab_variant'' (PStr ''A'')\<rparr> # rest"
      by (auto simp: ebind_Inr split: option.splits if_splits)
    from Cons.IH [OF rest] False kv rows show ?thesis by auto
  qed
qed

lemma feature_inserts_loop_total:
  "map_of f ''user_id'' \<noteq> None \<Longrightarrow> map_of f ''computed_at'' \<noteq> None \<Longrightarrow>
   \<exists>rows. feature_inserts_loop f items = Inr rows"
  by (induction items) (auto simp: ebind_def split: option.splits)

lemma upsert_other:
  "(u, k) \<notin> (\<lambda>r. (row_user_id r, row_feature_name r)) ` set rows \<Longrightarrow>
   upsert rows t (u, k) = t (u, k)"
  unfolding upsert_def
  by (induction rows arbitrary: t) auto

lemma execute_values_cases:
  assumes "execute_values rows s = (r, s1)"
  shows "features_committed s1 = features_committed s
         \<and> (r = Inl DatabaseError \<and> features_pending s1 = features_pending s
            \<or> r = Inr () \<and> features_pending s1 = upsert rows (features_pending s))"
  using assms
  by (auto simp: execute_values_def db_call_fails_def split: list.splits bool.splits)

lemma db_commit_cases:
  assumes "db_commit s = (r, s1)"
  shows "features_pending s1 = features_pending s
         \<and> (r = Inl DatabaseError \<and> features_committed s1 = features_committed s
            \<or> r = Inr () \<and> features_committed s1 = features_pending s)"
  using assms
  by (auto simp: db_commit_def db_call_fails_def split: list.splits bool.splits)

lemma store_features_commit:
  assumes clean: "features_pending s = features_committed s"
    and run: "store_features f s = (r, s')"
  shows "features_pending s' = features_committed s'
         \<and> (case r of
               Inr u \<Rightarrow> feature_inserts f = Inr (rows_of f)
                        \<and> features_committed s' = upsert (rows_of f) (features_committed s)
             | Inl e \<Rightarrow> features_committed s' = features_committed s)"
proof (cases "feature_inserts f")
  case (Inl e)
  with run clean show ?thesis
    by (auto simp: store_features_def pbind_def lift_def db_rollback_def)
next
  case (Inr rows)
  then have ro: "rows_of f = rows" by (simp add: rows_of_def)
  obtain r1 s1 where e: "(if rows \<noteq> [] then execute_values rows else ret ()) s = (r1, s1)"
    by (cases "(if rows \<noteq> [] then execute_values rows else ret ()) s")
  have e1: "features_committed s1 = features_committed s
         \<and> (r1 = Inl DatabaseError \<and> features_pending s1 = features_pending s
            \<or> r1 = Inr () \<and> features_pending s1 = upsert rows (features_pending s))"
  proof (cases "rows = []")
    case True
    with e show ?thesis by (auto simp: ret_def upsert_def)
  next
    case False
    with e show ?thesis using execute_values_cases [of rows s r1 s1] by simp
  qed
  show ?thesis
  proof (cases r1)
    case (Inl e')
    with run Inr e have "r = Inl e'" and "s' = db_rollback s1"
      by (simp_all add: store_features_def pbind_def lift_def)
    with e1 clean show ?thesis by (simp add: db_rollback_def)
  next
    case r1: (Inr u)
    obtain r2 s2 where c: "db_commit s1 = (r2, s2)" by (cases "db_commit s1")
    note c1 = db_commit_cases [OF c]
    show ?thesis
    proof (cases r2)
      case (Inl e')
      with run Inr e r1 c have "r = Inl e'" and "s' = db_rollback s2"
        by (simp_all add: store_features_def pbind_def lift_def)
      with e1 c1 clean Inl show ?thesis by (simp add: db_rollback_def)
    next
      case r2: (Inr u2)
      with run Inr e r1 c have "r = Inr ()" and "s' = s2"
        by (simp_all add: store_features_def pbind_def lift_def)
      with e1 c1 clean r1 r2 ro Inr show ?thesis by auto
    qed
  qed
qed


lemma store_and_send_commit:
  assumes clean: "features_pending s = features_committed s"
    and run: "pbind (store_features f) (\<lambda>u. producer_send_features f) s = (r, s1)"
  shows "features_pending s1 = features_committed s1
         \<and> (features_committed s1 = upsert (rows_of f) (features_committed s)
            \<or> features_committed s1 = features_committed s)"
proof -
  obtain r0 s0 where st: "store_features f s = (r0, s0)" by (cases "store_features f s")
  note a = store_features_commit [OF clean st]
  show ?thesis
  proof (cases r0)
    case (Inl e)
    with run st have "s1 = s0" by (simp add: pbind_def)
    with a Inl show ?thesis by simp
  next
    case (Inr u)
    with run st have "producer_send_features f s0 = (r, s1)" by (simp add: pbind_def)
    then have "features_pending s1 = features_pending s0
               \<and> features_committed s1 = features_committed s0"
      by (auto simp: producer_send_features_def kafka_send_fails_def
            split: list.splits bool.splits)
    with a Inr show ?thesis by simp
  qed
qed

lemma store_loop_commit:
  assumes "features_pending s = features_committed s"
  shows "\<exists>ok. subseq ok fb
           \<and> features_committed (store_loop fb s)
               = fold (\<lambda>f. upsert (rows_of f)) ok (features_committed s)"
  using assms
proof (induction fb arbitrary: s)
  case Nil
  show ?case by (intro exI [of _ "[]"]) simp
next
  case (Cons f fb)
  obtain r s1 where c: "pbind (store_features f) (\<lambda>u. producer_send_features f) s = (r, s1)"
    by (cases "pbind (store_features f) (\<lambda>u. producer_send_features f) s")
  note a = store_and_send_commit [OF Cons.prems c]
  define s2 where "s2 = (case r of
      Inr u \<Rightarrow> s1\<lparr>events_processed := events_processed s1 + 1\<rparr>
    | Inl e \<Rightarrow> s1\<lparr>events_failed := events_failed s1 + 1\<rparr>)"
  have s2: "features_pending s2 = features_committed s2"
    and c2: "features_committed s2 = features_committed s1"
    using a by (auto simp: s2_def split: sum.splits)
  have step: "store_loop (f # fb) s = store_loop fb s2"
    using c by (simp add: s2_def split: sum.splits)
  from Cons.IH [OF s2] obtain ok where
    ok: "subseq ok fb" and
    fin: "features_committed (store_loop fb s2)
            = fold (\<lambda>f. upsert (rows_of f)) ok (features_committed s2)"
    by blast
  from a show ?case
  proof (elim conjE disjE)
    assume "features_committed s1 = upsert (rows_of f) (features_committed s)"
    with fin c2 have "features_committed (store_loop (f # fb) s)
        = fold (\<lambda>f. upsert (rows_of f)) (f # ok) (features_committed s)"
      by (simp only: step fold_simps comp_apply)
    moreover from ok have "subseq (f # ok) (f # fb)" by (rule subseq_Cons2)
    ultimately show ?thesis by blast
  next
    assume "features_committed s1 = features_committed s"
    with fin c2 have "features_committed (store_loop (f # fb) s)
        = fold (\<lambda>f. upsert (rows_of f)) ok (features_committed s)"
      by (simp only: step)
    moreover from ok have "subseq ok (f # fb)" by (rule list_emb_Cons)
    ultimately show ?thesis by blast
  qed
qed

text \<open>
  C3, as amended. A batch flush stores its successfully computed records one at a time,
  each with its own bulk statement and its own commit. So the table committed after the
  flush is the table before it with the rows of some of the computed records upserted, in
  batch order (those whose statement and commit did not fail); and for each record
  \<^verbatim>\<open>store_features\<close> is atomic: either all of the record's rows are committed or, on a
  store failure, the table is left as it was and the exception is raised again. Records
  committed earlier in the same batch stay committed.
\<close>

theorem batch_commits_record_by_record:
  assumes clean: "features_pending s = features_committed s"
  shows "(\<exists>ok. subseq ok (fst (compute_loop env reg events [] s))
            \<and> features_committed (process_batch env reg events s)
                = fold (\<lambda>f. upsert (rows_of f)) ok (features_committed s))
       \<and> (\<forall>f s1 r s2.
             features_pending s1 = features_committed s1 \<and> store_features f s1 = (r, s2) \<longrightarrow>
             features_pending s2 = features_committed s2
             \<and> (case r of
                  Inr u \<Rightarrow> features_committed s2 = upsert (rows_of f) (features_committed s1)
                | Inl e \<Rightarrow> features_committed s2 = features_committed s1))"
proof (intro conjI allI impI)
  obtain fb s1 where c: "compute_loop env reg events [] s = (fb, s1)"
    by (cases "compute_loop env reg events [] s")
  from outputs_compute_loop [OF c] clean
  have s1: "features_pending s1 = features_committed s1"
    and c1: "features_committed s1 = features_committed s"
    by (simp_all add: outputs_def)
  from store_loop_commit [OF s1, of fb] c c1
  show "\<exists>ok. subseq ok (fst (compute_loop env reg events [] s))
            \<and> features_committed (process_batch env reg events s)
                = fold (\<lambda>f. upsert (rows_of f)) ok (features_committed s)"
    by (simp add: process_batch_def)
next
  fix f s1 r s2
  assume "features_pending s1 = features_committed s1 \<and> store_features f s1 = (r, s2)"
  then have a: "features_pending s1 = features_committed s1"
    and b: "store_features f s1 = (r, s2)" by simp_all
  from store_features_commit [OF a b]
  show "features_pending s2 = features_committed s2" by simp
  from store_features_commit [OF a b]
  show "case r of
          Inr u \<Rightarrow> features_committed s2 = upsert (rows_of f) (features_committed s1)
        | Inl e \<Rightarrow> features_committed s2 = features_committed s1"
    by (cases r) simp_all
qed

text \<open>
  C10. The rows that \<^verbatim>\<open>store_features\<close> builds are, in order, the items of the record
  whose key is outside the identity set and whose value is not \<^verbatim>\<open>None\<close> (and they are
  built whenever the record has \<^verbatim>\<open>user_id\<close> and \<^verbatim>\<open>computed_at\<close>). Whatever the outcome
  of the call, the committed table of no user changes at an identity key, \<^verbatim>\<open>raw_event\<close>
  among them, nor at a key that the record holds with the value \<^verbatim>\<open>None\<close> or does not
  hold at all.
\<close>

theorem store_features_rows:
  assumes clean: "features_pending s = features_committed s"
    and run: "store_features features s = (r, s')"
    and skipped: "k \<in> set identity_keys \<or> (\<forall>v. (k, v) \<in> set features \<longrightarrow> v = PNone)"
  shows "(\<forall>rows. feature_inserts features = Inr rows \<longrightarrow>
            map (\<lambda>r. (row_feature_name r, row_feature_value r)) rows
              = filter (\<lambda>kv. fst kv \<notin> set identity_keys \<and> snd kv \<noteq> PNone) features)
         \<and> (map_of features ''user_id'' \<noteq> None \<and> map_of features ''computed_at'' \<noteq> None \<longrightarrow>
              (\<exists>rows. feature_inserts features = Inr rows))
         \<and> features_committed s' (u, k) = features_committed s (u, k)"
proof (intro conjI allI impI)
  fix rows assume "feature_inserts features = Inr rows"
  then show "map (\<lambda>r. (row_feature_name r, row_feature_value r)) rows
              = filter (\<lambda>kv. fst kv \<notin> set identity_keys \<and> snd kv \<noteq> PNone) features"
    unfolding feature_inserts_def by (rule feature_inserts_loop_rows)
next
  assume "map_of features ''user_id'' \<noteq> None \<and> map_of features ''computed_at'' \<noteq> None"
  then show "\<exists>rows. feature_inserts features = Inr rows"
    unfolding feature_inserts_def using feature_inserts_loop_total by blast
next
  note a = store_features_commit [OF clean run]
  show "features_committed s' (u, k) = features_committed s (u, k)"
  proof (cases r)
    case (Inl e)
    with a show ?thesis by simp
  next
    case (Inr x)
    with a have fi: "feature_inserts features = Inr (rows_of features)"
      and co: "features_committed s' = upsert (rows_of features) (features_committed s)"
      by simp_all
    from fi have m: "map (\<lambda>r. (row_feature_name r, row_feature_value r)) (rows_of features)
              = filter (\<lambda>kv. fst kv \<notin> set identity_keys \<and> snd kv \<noteq> PNone) features"
      unfolding feature_inserts_def by (rule feature_inserts_loop_rows)
    have "(u, k) \<notin> (\<lambda>r. (row_user_id r, row_feature_name r)) ` set (rows_of features)"
    proof
      assume "(u, k) \<in> (\<lambda>r. (row_user_id r, row_feature_name r)) ` set (rows_of features)"
      then obtain row where row: "row \<in> set (rows_of features)" and k: "row_feature_name row = k"
        by auto
      from row have "(row_feature_name row, row_feature_value row)
            \<in> set (map (\<lambda>r. (row_feature_name r, row_feature_value r)) (rows_of features))"
        by (simp add: image_iff) blast
      with m k have "(k, row_feature_value row) \<in> set features"
        and "k \<notin> set identity_keys" and "row_feature_value row \<noteq> PNone"
        by auto
      with skipped show False by blast
    qed
    with co show ?thesis by (simp add: upsert_other)
  qed
qed

subsection \<open>The windowed counter\<close>

lemma windows_whole_hours:
  "(feature_name, window_seconds) \<in> set windows \<Longrightarrow>
   real_of_int (window_seconds div 3600) * 3600 = real_of_int window_seconds"
  by (auto simp: windows_def)

text \<open>
  C8. For each of the four windows (one hour, six hours, a day, a week) the windowed count
  of a user is: on a cache hit, the cached integer plus 1, counted as a hit; on a miss, the
  number of the user's rows of \<^verbatim>\<open>raw_events\<close> inside the window plus 1, counted as a
  miss, where a failing database call stands for a count of 0 and so gives 1. In both cases
  the count is written back to the cache key \<^verbatim>\<open>activity:{user_id}:{window_seconds}\<close>
  under the feature's time to live. The time to live of the registry is taken to be
  positive (the cache refuses any other), and a cached text that is no integer makes
  \<^verbatim>\<open>int\<close> raise.
\<close>

theorem activity_window_count:
  assumes ttl: "0 < get_feature_ttl reg feature_name"
    and win: "(feature_name, window_seconds) \<in> set windows"
    and run: "activity_window env reg user_id feature_name window_seconds s = (r, s')"
  shows "(case redis_get s (''activity:'' @ user_id @ '':'' @ str_int window_seconds) of
            Some cached \<Rightarrow>
              (case int_of_str env cached of
                 Some n \<Rightarrow> r = Inr (n + 1) \<and> cache_hits s' = cache_hits s + 1
               | None \<Rightarrow> r = Inl ValueError)
          | None \<Rightarrow>
              r = Inr ((if next_db_call_fails s then 0
                        else historical_count s user_id window_seconds) + 1)
              \<and> cache_misses s' = cache_misses s + 1)
         \<and> (\<forall>c. r = Inr c \<longrightarrow>
               redis s' = (redis s)(''activity:'' @ user_id @ '':'' @ str_int window_seconds
                             \<mapsto> (str_int c, Some (get_feature_ttl reg feature_name))))"
proof -
  note h = windows_whole_hours [OF win]
  show ?thesis
    using run ttl h
    by (auto simp: activity_window_def Let_def pbind_def redis_setex_def ret_def
          get_activity_count_from_db_def db_call_fails_def next_db_call_fails_def
          historical_count_def
          split: option.splits prod.splits list.splits bool.splits sum.splits if_splits)
qed


subsection \<open>The drift detector\<close>

lemma stats_key_neq_baseline [simp]:
  "''drift:stats:'' @ n \<noteq> ''drift:baseline:'' @ m"
  "''drift:baseline:'' @ m \<noteq> ''drift:stats:'' @ n"
  by simp_all

lemma update_statistics_effect:
  assumes "update_statistics n v s = (r, s1)"
  shows "drift_alerts s1 = drift_alerts s"
    and "redis_hashes s1 (''drift:baseline:'' @ m) = redis_hashes s (''drift:baseline:'' @ m)"
    and "r = Inr u \<Longrightarrow> redis_hashes s1 (''drift:stats:'' @ n) \<noteq> []"
    and "r = Inr u \<Longrightarrow>
         \<exists>c. field_int (dget (redis_hashes s (''drift:stats:'' @ n)) ''count'' (PInt 0)) = Inr c
            \<and> map_of (redis_hashes s1 (''drift:stats:'' @ n)) ''count'' = Some (PInt (c + 1))"
  using assms
  by (auto simp: update_statistics_def Let_def redis_hexpire_def redis_hset_def dict_update_def
        ebind_def update_conv' split: sum.splits option.splits if_splits)

lemma check_drift_effect:
  assumes run: "check_drift reg n s = (Inr (), s')"
  shows "redis_hashes s' (''drift:stats:'' @ n) = redis_hashes s (''drift:stats:'' @ n)
       \<and> (drift_alerts s' = drift_alerts s @ [n] \<or> drift_alerts s' = drift_alerts s)
       \<and> (drift_alerts s' = drift_alerts s @ [n] \<longleftrightarrow>
         (\<exists>th bm cm bs cs.
            drift_thresholds reg n = Some th
          \<and> redis_hashes s (''drift:baseline:'' @ n) \<noteq> []
          \<and> redis_hashes s (''drift:stats:'' @ n) \<noteq> []
          \<and> field_float (dget (redis_hashes s (''drift:baseline:'' @ n)) ''mean'' (PInt 0)) = Inr bm
          \<and> field_float (dget (redis_hashes s (''drift:stats:'' @ n)) ''mean'' (PInt 0)) = Inr cm
          \<and> field_float (dget (redis_hashes s (''drift:baseline:'' @ n)) ''std'' (PInt 1)) = Inr bs
          \<and> field_float (dget (redis_hashes s (''drift:stats:'' @ n)) ''std'' (PInt 1)) = Inr cs
          \<and> ((case th_mean_shift th of Some t \<Rightarrow> t | None \<Rightarrow> 10) < \<bar>cm - bm\<bar>
             \<or> (case th_std_shift th of Some t \<Rightarrow> t | None \<Rightarrow> 5) < \<bar>cs - bs\<bar>)))"
proof (cases "drift_thresholds reg n")
  case None
  with run have "s' = s" by (simp add: check_drift_def)
  with None show ?thesis by simp
next
  case (Some th)
  define baseline where "baseline = redis_hashes s (''drift:baseline:'' @ n)"
  define current where "current = redis_hashes s (''drift:stats:'' @ n)"
  show ?thesis
  proof (cases "baseline = [] \<or> current = []")
    case True
    with run Some have
      "redis_hashes s' (''drift:stats:'' @ n) = redis_hashes s (''drift:stats:'' @ n)"
      and "drift_alerts s' = drift_alerts s"
      by (auto simp: check_drift_def Let_def baseline_def current_def redis_hexpire_def
            redis_hset_def split: if_splits)
    with True show ?thesis by (auto simp: baseline_def current_def)
  next
    case False
    with run Some obtain bm cm bs cs where
      bm: "field_float (dget baseline ''mean'' (PInt 0)) = Inr bm" and
      cm: "field_float (dget current ''mean'' (PInt 0)) = Inr cm" and
      bs: "field_float (dget baseline ''std'' (PInt 1)) = Inr bs" and
      cs: "field_float (dget current ''std'' (PInt 1)) = Inr cs"
      by (auto simp: check_drift_def Let_def baseline_def current_def ebind_def
            split: sum.splits if_splits)
    define alert where "alert \<longleftrightarrow>
        (case th_mean_shift th of Some t \<Rightarrow> t | None \<Rightarrow> 10) < \<bar>cm - bm\<bar>
      \<or> (case th_std_shift th of Some t \<Rightarrow> t | None \<Rightarrow> 5) < \<bar>cs - bs\<bar>"
    from run Some False bm cm bs cs
    have s': "s' = (if alert then s\<lparr>drift_alerts := drift_alerts s @ [n]\<rparr> else s)"
      by (auto simp: check_drift_def Let_def baseline_def current_def ebind_def alert_def
            split: if_splits)
    have rhs: "(\<exists>th bm cm bs cs.
            drift_thresholds reg n = Some th
          \<and> redis_hashes s (''drift:baseline:'' @ n) \<noteq> []
          \<and> redis_hashes s (''drift:stats:'' @ n) \<noteq> []
          \<and> field_float (dget (redis_hashes s (''drift:baseline:'' @ n)) ''mean'' (PInt 0)) = Inr bm
          \<and> field_float (dget (redis_hashes s (''drift:stats:'' @ n)) ''mean'' (PInt 0)) = Inr cm
          \<and> field_float (dget (redis_hashes s (''drift:baseline:'' @ n)) ''std'' (PInt 1)) = Inr bs
          \<and> field_float (dget (redis_hashes s (''drift:stats:'' @ n)) ''std'' (PInt 1)) = Inr cs
          \<and> ((case th_mean_shift th of Some t \<Rightarrow> t | None \<Rightarrow> 10) < \<bar>cm - bm\<bar>
             \<or> (case th_std_shift th of Some t \<Rightarrow> t | None \<Rightarrow> 5) < \<bar>cs - bs\<bar>)) \<longleftrightarrow> alert"
      using Some False bm cm bs cs
      unfolding baseline_def [symmetric] current_def [symmetric] alert_def
      by auto
    show ?thesis
      unfolding rhs using s' by (cases alert) simp_all
  qed
qed


lemma record_feature_value_steps:
  assumes en: "drift_enabled reg" and val: "val \<noteq> PNone"
    and run: "record_feature_value env reg n val s = (r, s')"
  obtains s3 r4 s4 where
    "drift_alerts s3 = drift_alerts s" "redis_hashes s3 = redis_hashes s"
    "update_statistics n val s3 = (r4, s4)"
    "case r4 of Inl e \<Rightarrow> r = Inl e \<and> s' = s4 | Inr u \<Rightarrow> check_drift reg n s4 = (r, s')"
proof -
  obtain iso ts where c: "utcnow env (tick s) = (iso, ts)" by (cases "utcnow env (tick s)")
  define s3 where "s3 = redis_zremrangebyscore (''drift:values:'' @ n) (ts - 3600)
     (redis_zadd (''drift:values:'' @ n) (ts, val) ts (s\<lparr>tick := tick s + 1\<rparr>))"
  have a: "drift_alerts s3 = drift_alerts s" and b: "redis_hashes s3 = redis_hashes s"
    by (simp_all add: s3_def redis_zremrangebyscore_def redis_zadd_def)
  obtain r4 s4 where u: "update_statistics n val s3 = (r4, s4)"
    by (cases "update_statistics n val s3")
  from run en val c have "pbind (update_statistics n val) (\<lambda>u. check_drift reg n) s3 = (r, s')"
    by (simp add: record_feature_value_def read_clock_def Let_def s3_def)
  with u have "case r4 of Inl e \<Rightarrow> r = Inl e \<and> s' = s4
               | Inr u \<Rightarrow> check_drift reg n s4 = (r, s')"
    by (auto simp: pbind_def split: sum.splits)
  with a b u show ?thesis by (rule that)
qed

lemma record_no_threshold:
  assumes none: "drift_thresholds reg n = None"
    and run: "record_feature_value env reg n val s = (r, s')"
  shows "drift_alerts s' = drift_alerts s"
proof (cases "drift_enabled reg \<and> val \<noteq> PNone")
  case False
  with run show ?thesis by (auto simp: record_feature_value_def)
next
  case True
  then have en: "drift_enabled reg" and val: "val \<noteq> PNone" by simp_all
  from en val run obtain s3 r4 s4 where
    a: "drift_alerts s3 = drift_alerts s" and
    u: "update_statistics n val s3 = (r4, s4)" and
    k: "case r4 of Inl e \<Rightarrow> r = Inl e \<and> s' = s4 | Inr u \<Rightarrow> check_drift reg n s4 = (r, s')"
    by (rule record_feature_value_steps)
  from update_statistics_effect(1) [OF u] a have "drift_alerts s4 = drift_alerts s" by simp
  moreover from k none have "s' = s4"
    by (cases r4) (simp_all add: check_drift_def)
  ultimately show ?thesis by simp
qed

lemma record_all_no_threshold:
  assumes none: "drift_thresholds reg n = None"
  shows "drift_alerts (snd (record_all env reg n vals s)) = drift_alerts s"
proof (induction vals arbitrary: s)
  case Nil
  show ?case by simp
next
  case (Cons v vals)
  obtain r s1 where c: "record_feature_value env reg n v s = (r, s1)"
    by (cases "record_feature_value env reg n v s")
  from record_no_threshold [OF none c] have "drift_alerts s1 = drift_alerts s" .
  with c Cons.IH [of s1] show ?case by (cases r) simp_all
qed

text \<open>
  C9. With drift monitoring on, recording a value that is not \<^verbatim>\<open>None\<close> always updates
  the statistics of the feature (its count goes up by one) and appends at most one alert
  for the feature; it appends one exactly when the feature has configured thresholds, a
  baseline was stored before the call, and the mean or the standard deviation of the
  updated statistics is further from the baseline's than the threshold (10 and 5 where
  the configuration of the feature leaves one out). A feature without configured
  thresholds never gets an alert, whatever sequence of values is recorded.
\<close>

theorem drift_alert_iff:
  assumes en: "drift_enabled reg" and val: "val \<noteq> PNone"
    and run: "record_feature_value env reg feature_name val s = (Inr (), s')"
  shows "(drift_alerts s' = drift_alerts s @ [feature_name] \<or> drift_alerts s' = drift_alerts s)
     \<and> (\<exists>c. field_int (dget (redis_hashes s (''drift:stats:'' @ feature_name)) ''count''
                  (PInt 0)) = Inr c
          \<and> map_of (redis_hashes s' (''drift:stats:'' @ feature_name)) ''count''
              = Some (PInt (c + 1)))
     \<and> (drift_alerts s' = drift_alerts s @ [feature_name] \<longleftrightarrow>
         (\<exists>th bm cm bs cs.
            drift_thresholds reg feature_name = Some th
          \<and> redis_hashes s (''drift:baseline:'' @ feature_name) \<noteq> []
          \<and> field_float (dget (redis_hashes s (''drift:baseline:'' @ feature_name)) ''mean''
               (PInt 0)) = Inr bm
          \<and> field_float (dget (redis_hashes s' (''drift:stats:'' @ feature_name)) ''mean''
               (PInt 0)) = Inr cm
          \<and> field_float (dget (redis_hashes s (''drift:baseline:'' @ feature_name)) ''std''
               (PInt 1)) = Inr bs
          \<and> field_float (dget (redis_hashes s' (''drift:stats:'' @ feature_name)) ''std''
               (PInt 1)) = Inr cs
          \<and> ((case th_mean_shift th of Some t \<Rightarrow> t | None \<Rightarrow> 10) < \<bar>cm - bm\<bar>
             \<or> (case th_std_shift th of Some t \<Rightarrow> t | None \<Rightarrow> 5) < \<bar>cs - bs\<bar>)))
     \<and> (drift_thresholds reg feature_name = None \<longrightarrow>
          (\<forall>vals s0. drift_alerts (snd (record_all env reg feature_name vals s0))
                      = drift_alerts s0))"
proof -
  let ?sk = "''drift:stats:'' @ feature_name"
  let ?bk = "''drift:baseline:'' @ feature_name"
  from en val run obtain s3 r4 s4 where
    a: "drift_alerts s3 = drift_alerts s" and
    h: "redis_hashes s3 = redis_hashes s" and
    u: "update_statistics feature_name val s3 = (r4, s4)" and
    k: "case r4 of Inl e \<Rightarrow> Inr () = Inl e \<and> s' = s4
        | Inr u \<Rightarrow> check_drift reg feature_name s4 = (Inr (), s')"
    by (rule record_feature_value_steps)
  from k have r4: "r4 = Inr ()" and cd: "check_drift reg feature_name s4 = (Inr (), s')"
    by (cases r4; simp)+
  note us = update_statistics_effect [OF u]
  have a4: "drift_alerts s4 = drift_alerts s" using us(1) a by simp
  have b4: "redis_hashes s4 ?bk = redis_hashes s ?bk" using us(2) [of feature_name] h by simp
  have n4: "redis_hashes s4 ?sk \<noteq> []" using us(3) [OF r4] .
  from us(4) [OF r4] h obtain c where
    c: "field_int (dget (redis_hashes s ?sk) ''count'' (PInt 0)) = Inr c" and
    c4: "map_of (redis_hashes s4 ?sk) ''count'' = Some (PInt (c + 1))"
    by auto
  note ce = check_drift_effect [OF cd]
  have k': "redis_hashes s' ?sk = redis_hashes s4 ?sk"
    by (rule conjunct1 [OF ce])
  have "drift_alerts s' = drift_alerts s4 @ [feature_name] \<or> drift_alerts s' = drift_alerts s4"
    by (rule conjunct1 [OF conjunct2 [OF ce]])
  then have one: "drift_alerts s' = drift_alerts s @ [feature_name]
                  \<or> drift_alerts s' = drift_alerts s"
    unfolding a4 .
  have two: "\<exists>c. field_int (dget (redis_hashes s ?sk) ''count'' (PInt 0)) = Inr c
          \<and> map_of (redis_hashes s' ?sk) ''count'' = Some (PInt (c + 1))"
    using c c4 k' by auto
  have three: "drift_alerts s' = drift_alerts s @ [feature_name] \<longleftrightarrow>
         (\<exists>th bm cm bs cs.
            drift_thresholds reg feature_name = Some th
          \<and> redis_hashes s ?bk \<noteq> []
          \<and> field_float (dget (redis_hashes s ?bk) ''mean'' (PInt 0)) = Inr bm
          \<and> field_float (dget (redis_hashes s' ?sk) ''mean'' (PInt 0)) = Inr cm
          \<and> field_float (dget (redis_hashes s ?bk) ''std'' (PInt 1)) = Inr bs
          \<and> field_float (dget (redis_hashes s' ?sk) ''std'' (PInt 1)) = Inr cs
          \<and> ((case th_mean_shift th of Some t \<Rightarrow> t | None \<Rightarrow> 10) < \<bar>cm - bm\<bar>
             \<or> (case th_std_shift th of Some t \<Rightarrow> t | None \<Rightarrow> 5) < \<bar>cs - bs\<bar>))"
  proof -
    have k'': "redis_hashes s4 ?sk = redis_hashes s' ?sk" using k' by simp
    from ce have "drift_alerts s' = drift_alerts s4 @ [feature_name] \<longleftrightarrow>
         (\<exists>th bm cm bs cs.
            drift_thresholds reg feature_name = Some th
          \<and> redis_hashes s4 ?bk \<noteq> []
          \<and> redis_hashes s4 ?sk \<noteq> []
          \<and> field_float (dget (redis_hashes s4 ?bk) ''mean'' (PInt 0)) = Inr bm
          \<and> field_float (dget (redis_hashes s4 ?sk) ''mean'' (PInt 0)) = Inr cm
          \<and> field_float (dget (redis_hashes s4 ?bk) ''std'' (PInt 1)) = Inr bs
          \<and> field_float (dget (redis_hashes s4 ?sk) ''std'' (PInt 1)) = Inr cs
          \<and> ((case th_mean_shift th of Some t \<Rightarrow> t | None \<Rightarrow> 10) < \<bar>cm - bm\<bar>
             \<or> (case th_std_shift th of Some t \<Rightarrow> t | None \<Rightarrow> 5) < \<bar>cs - bs\<bar>))"
      by (rule conjunct2 [OF conjunct2])
    with n4 show ?thesis
      unfolding a4 b4 k'' by blast
  qed
  have four: "drift_thresholds reg feature_name = None \<longrightarrow>
          (\<forall>vals s0. drift_alerts (snd (record_all env reg feature_name vals s0))
                      = drift_alerts s0)"
    using record_all_no_threshold by blast
  from one two three four show ?thesis by blast
qed
subsection \<open>Evaluation at concrete inputs\<close>

lemmas eval_defs =
  dict_update_def py_gt_def py_lt_def dt_hour_def dt_weekday_def dt_sub_def total_seconds_def
  replace_Z_def get_feature_ttl_def get_user_variant_def should_compute_feature_def
  digit_char_def str_nat.simps str_int_def digit_val_def digits_val_def dec_int_def
  pbind_def ret_def raise_def ebind_def read_clock_def redis_get_def redis_setex_def
  redis_incr_def redis_expire_def db_call_fails_def kafka_send_fails_def dget_def set_if_def
  compute_temporal_features_def event_types_def device_types_def one_hot_def
  compute_categorical_features_def get_activity_count_from_db_def windows_def
  activity_window_def event_type_frequency_def compute_windowed_aggregations_def py_max1_def
  py_truediv_def cached_int_def activity_trend_def purchase_rate_24h_def
  compute_ratio_features_def session_points_def engagement_v2_def engagement_v1_def
  compute_engagement_score_def redis_hset_def redis_hexpire_def update_statistics_def
  check_drift_def redis_zadd_def redis_zremrangebyscore_def record_feature_value_def
  time_since_last_event_def session_indicator_def new_user_indicator_def lift_def
  get_user_id_def get_event_type_def compute_features_def identity_keys_def
  feature_inserts_def upsert_def db_rollback_def db_commit_def execute_values_def
  store_features_def producer_send_features_def producer_send_dlq_def process_batch_def
  process_event_def is_leap_def days_in_month_def days_before_year_def days_before_month_def
  parse_ymd_def parse_hms_def parse_fraction_def parse_offset_def iso_basic_def md5_known_def
  still_clock_def py_env_def plain_registry_def empty_state_def view_event_def
  first_event_def ab_registry_def control_registry_def gated_registry_def seen_state_def
  busy_hour_state_def feature_of_def second_event_def flaky_state_def drift_registry_def
  drifting_state_def Let_def

lemma first_event_result:
  "fst (compute_features py_env plain_registry first_event empty_state) = Inl TypeError"
  by (simp add: eval_defs)

lemma seen_result:
  "fst (compute_features py_env plain_registry first_event seen_state) = Inr seen_record"
  by (simp add: eval_defs seen_record_def)

lemma seen_run:
  "compute_features py_env plain_registry first_event seen_state
     = (Inr seen_record, snd (compute_features py_env plain_registry first_event seen_state))"
  using seen_result by (metis prod.collapse)

text \<open>The first event of user \<open>u1\<close> on the empty stores, with a registry that gates
  nothing: the computation raises \<^verbatim>\<open>TypeError\<close>.\<close>

theorem first_event_raises_witness:
  "redis_get empty_state (''last_event:'' @ get_user_id first_event) = None
   \<and> should_compute_feature plain_registry ''is_active_session''
        (get_user_variant py_env plain_registry (get_user_id first_event))
   \<and> (\<exists>e. fst (compute_features py_env plain_registry first_event empty_state) = Inl e)
   \<and> fst (compute_features py_env plain_registry first_event empty_state) = Inl TypeError"
proof -
  have a: "redis_get empty_state (''last_event:'' @ get_user_id first_event) = None"
    by (simp add: redis_get_def empty_state_def)
  have b: "should_compute_feature plain_registry ''is_active_session''
        (get_user_variant py_env plain_registry (get_user_id first_event))"
    by (simp add: should_compute_feature_def plain_registry_def)
  have c: "\<exists>e. fst (compute_features py_env plain_registry first_event empty_state) = Inl e"
    using a b by (rule first_event_raises)
  from a b c first_event_result show ?thesis by (intro conjI)
qed

text \<open>
  C2. The claim is that a batch flush sends a dead-letter record for every event whose
  computation fails. \<^verbatim>\<open>process_batch\<close> never sends anything to the dead-letter topic:
  it leaves the topic as it found it, for every batch and every state. At the first event
  of user \<open>u1\<close>, whose computation raises, the batch counts one failure and sends no
  dead-letter record, where \<^verbatim>\<open>process_event\<close> on the same input sends the record with
  the original event.
\<close>

theorem process_batch_never_dead_letters:
  "dead_letter_queue (process_batch env reg events s) = dead_letter_queue s
   \<and> fst (compute_features py_env plain_registry first_event empty_state) = Inl TypeError
   \<and> dead_letter_queue (process_batch py_env plain_registry [first_event] empty_state) = []
   \<and> events_failed (process_batch py_env plain_registry [first_event] empty_state) = 1
   \<and> dead_letter_queue (process_event py_env plain_registry first_event empty_state)
       = [\<lparr>dlq_original_event = first_event, dlq_error = TypeError,
           dlq_timestamp = ''2024-01-01T12:00:00''\<rparr>]"
proof (intro conjI)
  show "dead_letter_queue (process_batch env reg events s) = dead_letter_queue s"
    by (rule dlq_process_batch)
  show "fst (compute_features py_env plain_registry first_event empty_state) = Inl TypeError"
    by (rule first_event_result)
  show "dead_letter_queue (process_batch py_env plain_registry [first_event] empty_state) = []"
    by (simp add: dlq_process_batch empty_state_def)
  show "events_failed (process_batch py_env plain_registry [first_event] empty_state) = 1"
    by (simp add: eval_defs)
  show "dead_letter_queue (process_event py_env plain_registry first_event empty_state)
       = [\<lparr>dlq_original_event = first_event, dlq_error = TypeError,
           dlq_timestamp = ''2024-01-01T12:00:00''\<rparr>]"
    by (simp add: eval_defs)
qed

text \<open>C3 as stated fails: of a batch of two events that are both computed, the first
  record is committed and the second, whose \<^verbatim>\<open>INSERT\<close> fails, is not.\<close>

theorem partial_commit_counterexample:
  "length (fst (compute_loop py_env plain_registry [first_event, second_event] [] flaky_state)) = 2
   \<and> batch_outcome (process_batch py_env plain_registry [first_event, second_event] flaky_state)
       = (True, False, 1, 1)"
  by (simp add: eval_defs batch_outcome_def stored_def)

text \<open>C4 as stated fails: an event stamped ten seconds before the stored last-event
  time gets \<^verbatim>\<open>seconds_since_last_event = -10\<close>.\<close>

theorem negative_seconds_counterexample:
  "feature_of (compute_features py_env plain_registry
                 (view_event ''u1'' ''2023-12-31T23:59:50'') seen_state)
     ''seconds_since_last_event'' = Some (PFloat (- 10))"
  by (simp add: eval_defs)

text \<open>C5 as stated fails: with a cached one-hour counter of 5 and no 24-hour counter
  (and no rows in the database), \<^verbatim>\<open>activity_trend\<close> is \<open>6 / 1\<close>.\<close>

theorem trend_above_one_counterexample:
  "feature_of (compute_features py_env plain_registry first_event busy_hour_state)
     ''activity_trend'' = Some (PFloat 6)"
  by (simp add: eval_defs)

text \<open>C6 as stated fails: \<^verbatim>\<open>seconds_since_last_event\<close> is written although the
  registry says the feature is not active for the user's variant.\<close>

theorem ungated_seconds_counterexample:
  "\<not> should_compute_feature gated_registry ''seconds_since_last_event''
        (get_user_variant py_env gated_registry (get_user_id first_event))
   \<and> ''seconds_since_last_event'' \<notin> set identity_keys
   \<and> feature_of (compute_features py_env gated_registry first_event seen_state)
        ''seconds_since_last_event'' = Some (PFloat 10)"
  by (simp add: eval_defs)

text \<open>The three amended theorems at the record of \<open>first_event\<close> on \<open>seen_state\<close>.\<close>

theorem seconds_since_last_event_signed_witness:
  "compute_features py_env plain_registry first_event seen_state
     = (Inr seen_record, snd (compute_features py_env plain_registry first_event seen_state))
   \<and> map_of seen_record ''seconds_since_last_event'' = Some (PFloat 10)
   \<and> (\<exists>ts. map_of seen_record ''timestamp'' = Some (PStr ts)
     \<and> (map_of seen_record ''seconds_since_last_event'' = Some PNone
        \<or> (\<exists>l last_time cur d.
              redis_get seen_state (''last_event:'' @ get_user_id first_event) = Some l
            \<and> fromisoformat py_env l = Some last_time
            \<and> fromisoformat py_env (replace_Z ts) = Some cur
            \<and> dt_sub cur last_time = Inr d
            \<and> map_of seen_record ''seconds_since_last_event''
                = Some (PFloat (real_of_int d / 1000000))
            \<and> (real_of_int d / 1000000 < 0 \<longleftrightarrow> d < 0))))"
proof (intro conjI)
  show "compute_features py_env plain_registry first_event seen_state
     = (Inr seen_record, snd (compute_features py_env plain_registry first_event seen_state))"
    by (rule seen_run)
  show "map_of seen_record ''seconds_since_last_event'' = Some (PFloat 10)"
    by (simp add: seen_record_def)
  show "\<exists>ts. map_of seen_record ''timestamp'' = Some (PStr ts)
     \<and> (map_of seen_record ''seconds_since_last_event'' = Some PNone
        \<or> (\<exists>l last_time cur d.
              redis_get seen_state (''last_event:'' @ get_user_id first_event) = Some l
            \<and> fromisoformat py_env l = Some last_time
            \<and> fromisoformat py_env (replace_Z ts) = Some cur
            \<and> dt_sub cur last_time = Inr d
            \<and> map_of seen_record ''seconds_since_last_event''
                = Some (PFloat (real_of_int d / 1000000))
            \<and> (real_of_int d / 1000000 < 0 \<longleftrightarrow> d < 0)))"
    by (rule seconds_since_last_event_signed [OF seen_run])
qed

theorem engagement_and_trend_range_witness:
  "compute_features py_env plain_registry first_event seen_state
     = (Inr seen_record, snd (compute_features py_env plain_registry first_event seen_state))
   \<and> map_of seen_record ''engagement_score'' = Some (PInt 20)
   \<and> map_of seen_record ''activity_trend'' = Some (PFloat 1)
   \<and> (\<exists>e. map_of seen_record
              (if get_user_variant py_env plain_registry (get_user_id first_event) = ''B''
               then ''engagement_score_v2'' else ''engagement_score'') = Some (PInt e)
          \<and> 0 \<le> e \<and> e \<le> 100)"
proof (intro conjI)
  show "compute_features py_env plain_registry first_event seen_state
     = (Inr seen_record, snd (compute_features py_env plain_registry first_event seen_state))"
    by (rule seen_run)
  show "map_of seen_record ''engagement_score'' = Some (PInt 20)"
    by (simp add: seen_record_def)
  show "map_of seen_record ''activity_trend'' = Some (PFloat 1)"
    by (simp add: seen_record_def)
  show "\<exists>e. map_of seen_record
              (if get_user_variant py_env plain_registry (get_user_id first_event) = ''B''
               then ''engagement_score_v2'' else ''engagement_score'') = Some (PInt e)
          \<and> 0 \<le> e \<and> e \<le> 100"
    by (rule conjunct1 [OF engagement_and_trend_range [OF seen_run]])
qed

theorem compute_features_keys_witness:
  "compute_features py_env plain_registry first_event seen_state
     = (Inr seen_record, snd (compute_features py_env plain_registry first_event seen_state))
   \<and> ''is_active_session'' \<in> keys seen_record
   \<and> ''is_active_session'' \<notin> set identity_keys
   \<and> ''is_active_session'' \<notin> set ungated_keys
   \<and> should_compute_feature plain_registry (gate_of ''is_active_session'')
        (get_user_variant py_env plain_registry (get_user_id first_event))"
proof -
  have k: "''is_active_session'' \<in> keys seen_record"
    by (simp add: seen_record_def)
  have i: "''is_active_session'' \<notin> set identity_keys"
    by (simp add: identity_keys_def)
  have u: "''is_active_session'' \<notin> set ungated_keys"
    by (simp add: ungated_keys_def)
  from compute_features_keys [OF seen_run k] i u
  have "should_compute_feature plain_registry (gate_of ''is_active_session'')
        (get_user_variant py_env plain_registry (get_user_id first_event))"
    by blast
  with seen_run k i u show ?thesis by (intro conjI)
qed

text \<open>The batch theorem at the batch of \<open>first_event\<close> and \<open>second_event\<close> on
  \<open>flaky_state\<close>, and its second part at the record of \<open>first_event\<close>: the call
  succeeds and commits the rows of the record.\<close>

theorem batch_commits_record_by_record_witness:
  "features_pending flaky_state = features_committed flaky_state
   \<and> features_pending seen_state = features_committed seen_state
   \<and> (\<exists>ok. subseq ok (fst (compute_loop py_env plain_registry [first_event, second_event] []
                             flaky_state))
          \<and> features_committed (process_batch py_env plain_registry [first_event, second_event]
                                   flaky_state)
              = fold (\<lambda>f. upsert (rows_of f)) ok (features_committed flaky_state))
   \<and> fst (store_features seen_record seen_state) = Inr ()
   \<and> features_committed (snd (store_features seen_record seen_state))
       = upsert (rows_of seen_record) (features_committed seen_state)
   \<and> features_pending (snd (store_features seen_record seen_state))
       = features_committed (snd (store_features seen_record seen_state))"
proof -
  let ?run = "store_features seen_record seen_state"
  have c1: "features_pending flaky_state = features_committed flaky_state"
    by (simp add: flaky_state_def seen_state_def empty_state_def)
  have c2: "features_pending seen_state = features_committed seen_state"
    by (simp add: seen_state_def empty_state_def)
  note t = batch_commits_record_by_record [OF c1, of py_env plain_registry
             "[first_event, second_event]"]
  have ok: "fst ?run = Inr ()"
    by (simp add: eval_defs seen_record_def)
  have run: "?run = (Inr (), snd ?run)" using ok by (metis prod.collapse)
  from conjunct2 [OF t] c2 run
  have "features_pending (snd ?run) = features_committed (snd ?run)
        \<and> (case (Inr () :: pyerr + unit) of
              Inr u \<Rightarrow> features_committed (snd ?run)
                        = upsert (rows_of seen_record) (features_committed seen_state)
            | Inl e \<Rightarrow> features_committed (snd ?run) = features_committed seen_state)"
    by blast
  then have p: "features_pending (snd ?run) = features_committed (snd ?run)"
    and q: "features_committed (snd ?run)
              = upsert (rows_of seen_record) (features_committed seen_state)"
    by simp_all
  from c1 c2 conjunct1 [OF t] ok q p show ?thesis by (intro conjI)
qed

text \<open>The store theorem at \<open>fresh_record\<close>, which holds
  \<^verbatim>\<open>seconds_since_last_event = None\<close>: the call succeeds, the engagement score of
  \<open>u1\<close> is stored, and no row is stored for \<^verbatim>\<open>seconds_since_last_event\<close> nor for
  \<^verbatim>\<open>raw_event\<close>.\<close>

theorem store_features_rows_witness:
  "features_pending seen_state = features_committed seen_state
   \<and> map_of fresh_record ''seconds_since_last_event'' = Some PNone
   \<and> map_of fresh_record ''raw_event'' = Some (PEvent first_event)
   \<and> ''raw_event'' \<in> set identity_keys
   \<and> fst (store_features fresh_record seen_state) = Inr ()
   \<and> stored (snd (store_features fresh_record seen_state)) ''u1'' ''engagement_score''
   \<and> features_committed (snd (store_features fresh_record seen_state))
        (PStr ''u1'', ''seconds_since_last_event'') = None
   \<and> features_committed (snd (store_features fresh_record seen_state))
        (PStr ''u1'', ''raw_event'') = None"
proof -
  let ?run = "store_features fresh_record seen_state"
  have clean: "features_pending seen_state = features_committed seen_state"
    by (simp add: seen_state_def empty_state_def)
  have none: "map_of fresh_record ''seconds_since_last_event'' = Some PNone"
    by (simp add: fresh_record_def update_conv')
  have raw: "map_of fresh_record ''raw_event'' = Some (PEvent first_event)"
    by (simp add: fresh_record_def seen_record_def update_conv' delete_conv')
  have idk: "''raw_event'' \<in> set identity_keys"
    by (simp add: identity_keys_def)
  have ok: "fst ?run = Inr ()"
    by (simp add: eval_defs fresh_record_def seen_record_def)
  have st: "stored (snd ?run) ''u1'' ''engagement_score''"
    by (simp add: eval_defs fresh_record_def seen_record_def stored_def)
  have run: "?run = (fst ?run, snd ?run)" by simp
  have sk1: "''seconds_since_last_event'' \<in> set identity_keys
             \<or> (\<forall>v. (''seconds_since_last_event'', v) \<in> set fresh_record \<longrightarrow> v = PNone)"
    by (simp add: fresh_record_def seen_record_def)
  have sk2: "''raw_event'' \<in> set identity_keys
             \<or> (\<forall>v. (''raw_event'', v) \<in> set fresh_record \<longrightarrow> v = PNone)"
    using idk by simp
  have e: "features_committed seen_state = Map.empty"
    by (simp add: seen_state_def empty_state_def)
  from store_features_rows [OF clean run sk1, of "PStr ''u1''"] e
  have a: "features_committed (snd ?run) (PStr ''u1'', ''seconds_since_last_event'') = None"
    by simp
  from store_features_rows [OF clean run sk2, of "PStr ''u1''"] e
  have b: "features_committed (snd ?run) (PStr ''u1'', ''raw_event'') = None"
    by simp
  from clean none raw idk ok st a b show ?thesis by (intro conjI)
qed

text \<open>A cache miss for the seven-day window when the database call fails: the count
  is 1.\<close>

lemma db_failure_counts_one:
  "next_db_call_fails (empty_state\<lparr>db_faults := [True]\<rparr>)
   \<and> fst (activity_window py_env plain_registry ''u1'' ''activity_count_7d'' 604800
            (empty_state\<lparr>db_faults := [True]\<rparr>)) = Inr 1"
  by (simp add: eval_defs next_db_call_fails_def)

text \<open>The window theorem at a cache hit: the one-hour counter of \<open>u1\<close> is cached as
  \<open>5\<close>, the count is 6 and the cache holds \<open>6\<close> under the default time to live of 300
  seconds.\<close>

theorem activity_window_count_witness:
  "0 < get_feature_ttl plain_registry ''activity_count_1h''
   \<and> (''activity_count_1h'', 3600) \<in> set windows
   \<and> redis_get busy_hour_state ''activity:u1:3600'' = Some ''5''
   \<and> fst (activity_window py_env plain_registry ''u1'' ''activity_count_1h'' 3600
             busy_hour_state) = Inr 6
   \<and> redis (snd (activity_window py_env plain_registry ''u1'' ''activity_count_1h'' 3600
                    busy_hour_state)) ''activity:u1:3600'' = Some (''6'', Some 300)
   \<and> cache_hits (snd (activity_window py_env plain_registry ''u1'' ''activity_count_1h'' 3600
                         busy_hour_state)) = 1"
proof -
  let ?run = "activity_window py_env plain_registry ''u1'' ''activity_count_1h'' 3600
                busy_hour_state"
  have ttl: "0 < get_feature_ttl plain_registry ''activity_count_1h''"
    by (simp add: get_feature_ttl_def plain_registry_def)
  have win: "(''activity_count_1h'', 3600) \<in> set windows"
    by (simp add: windows_def)
  have hit: "redis_get busy_hour_state ''activity:u1:3600'' = Some ''5''"
    by (simp add: eval_defs)
  have key: "''activity:'' @ ''u1'' @ '':'' @ str_int 3600 = ''activity:u1:3600''"
    by (simp add: eval_defs)
  have five: "int_of_str py_env ''5'' = Some 5"
    by (simp add: eval_defs)
  have six: "str_int 6 = ''6''"
    by (simp add: eval_defs)
  have run: "?run = (fst ?run, snd ?run)" by simp
  note t = activity_window_count [OF ttl win run, unfolded key hit]
  from t five have r: "fst ?run = Inr 6" and h: "cache_hits (snd ?run) = 1"
    by (simp_all add: busy_hour_state_def seen_state_def empty_state_def)
  from t r have "redis (snd ?run) = (redis busy_hour_state)(''activity:u1:3600''
                    \<mapsto> (str_int 6, Some (get_feature_ttl plain_registry ''activity_count_1h'')))"
    by simp
  then have w: "redis (snd ?run) ''activity:u1:3600'' = Some (''6'', Some 300)"
    by (simp add: six get_feature_ttl_def plain_registry_def)
  from ttl win hit r w h show ?thesis by (intro conjI)
qed

text \<open>The drift theorem at a first value of 30 for \<^verbatim>\<open>engagement_score\<close>, against a
  baseline of mean 0 and a mean-shift threshold of 10: the statistics are updated to a
  count of 1 and a mean of 30, and one alert is appended.\<close>

theorem drift_alert_iff_witness:
  "drift_enabled drift_registry
   \<and> PInt 30 \<noteq> PNone
   \<and> fst (record_feature_value py_env drift_registry ''engagement_score'' (PInt 30)
            drifting_state) = Inr ()
   \<and> drift_alerts (snd (record_feature_value py_env drift_registry ''engagement_score''
                          (PInt 30) drifting_state)) = [''engagement_score'']
   \<and> map_of (redis_hashes (snd (record_feature_value py_env drift_registry
                ''engagement_score'' (PInt 30) drifting_state))
               ''drift:stats:engagement_score'') ''count'' = Some (PInt 1)
   \<and> (\<exists>th bm cm.
         drift_thresholds drift_registry ''engagement_score'' = Some th
       \<and> field_float (dget (redis_hashes drifting_state ''drift:baseline:engagement_score'')
            ''mean'' (PInt 0)) = Inr bm
       \<and> field_float (dget (redis_hashes (snd (record_feature_value py_env drift_registry
            ''engagement_score'' (PInt 30) drifting_state)) ''drift:stats:engagement_score'')
            ''mean'' (PInt 0)) = Inr cm
       \<and> bm = 0 \<and> cm = 30)"
proof -
  let ?run = "record_feature_value py_env drift_registry ''engagement_score'' (PInt 30)
                drifting_state"
  have en: "drift_enabled drift_registry" by (simp add: drift_registry_def)
  have val: "PInt 30 \<noteq> PNone" by simp
  have ok: "fst ?run = Inr ()" by (simp add: eval_defs)
  have al: "drift_alerts (snd ?run) = [''engagement_score'']" by (simp add: eval_defs)
  have al0: "drift_alerts drifting_state = []" by (simp add: eval_defs)
  have run: "?run = (Inr (), snd ?run)" using ok by (metis prod.collapse)
  note t = drift_alert_iff [OF en val run]
  have c0: "field_int (dget (redis_hashes drifting_state (''drift:stats:'' @ ''engagement_score''))
              ''count'' (PInt 0)) = Inr 0"
    by (simp add: eval_defs)
  from conjunct1 [OF conjunct2 [OF t]] c0
  have cnt: "map_of (redis_hashes (snd ?run) ''drift:stats:engagement_score'') ''count''
               = Some (PInt 1)"
    by simp
  from conjunct1 [OF conjunct2 [OF conjunct2 [OF t]]] al al0
  obtain th bm cm where
    th: "drift_thresholds drift_registry ''engagement_score'' = Some th" and
    bm: "field_float (dget (redis_hashes drifting_state ''drift:baseline:engagement_score'')
            ''mean'' (PInt 0)) = Inr bm" and
    cm: "field_float (dget (redis_hashes (snd ?run) ''drift:stats:engagement_score'')
            ''mean'' (PInt 0)) = Inr cm"
    by auto
  from bm have bm0: "bm = 0" by (simp add: eval_defs)
  from cm have cm30: "cm = 30" by (simp add: eval_defs)
  from th bm cm bm0 cm30 have ex: "\<exists>th bm cm.
         drift_thresholds drift_registry ''engagement_score'' = Some th
       \<and> field_float (dget (redis_hashes drifting_state ''drift:baseline:engagement_score'')
            ''mean'' (PInt 0)) = Inr bm
       \<and> field_float (dget (redis_hashes (snd ?run) ''drift:stats:engagement_score'')
            ''mean'' (PInt 0)) = Inr cm
       \<and> bm = 0 \<and> cm = 30"
    by blast
  from en val ok al cnt ex show ?thesis by (intro conjI)
qed

end
